theory Spec2Isabelle
  imports Complex_Main
begin

section \<open>Errors and results\<close>

text \<open>
  Every exception the Python code or the tensor library can raise is a value.
  \<open>NotANumber\<close> stands for the places where the tensor library does not raise but
  yields NaN or an infinity (a mean over an empty dimension, a logarithm of a
  non-positive number): such a value is no real number, and the model stops there.
\<close>

datatype error =
    IndexError
  | RuntimeError
  | AttributeError
  | AssertionError string
  | NotANumber

type_synonym 'a result = "error + 'a"

definition bindE :: "'a result \<Rightarrow> ('a \<Rightarrow> 'b result) \<Rightarrow> 'b result" where
  "bindE m f = (case m of Inl e \<Rightarrow> Inl e | Inr x \<Rightarrow> f x)"

section \<open>Tensors\<close>

text \<open>
  A tensor is its shape and its elements in row-major order, over the reals
  (rounding of floating-point numbers is not modelled).
\<close>

record tensor =
  shape :: "nat list"
  data :: "real list"

definition wf_tensor :: "tensor \<Rightarrow> bool" where
  "wf_tensor t \<longleftrightarrow> length (data t) = prod_list (shape t)"

definition rank :: "tensor \<Rightarrow> nat" where
  "rank t = length (shape t)"

text \<open>Row-major position of a multi-index, and the multi-index of a position.\<close>

fun ravel :: "nat list \<Rightarrow> nat list \<Rightarrow> nat" where
  "ravel (n # ns) (i # is) = i * prod_list ns + ravel ns is"
| "ravel _ _ = 0"

fun unravel :: "nat list \<Rightarrow> nat \<Rightarrow> nat list" where
  "unravel [] j = []"
| "unravel (n # ns) j = (j div prod_list ns) # unravel ns (j mod prod_list ns)"

definition valid_index :: "nat list \<Rightarrow> nat list \<Rightarrow> bool" where
  "valid_index sh idx \<longleftrightarrow> list_all2 (\<lambda>i n. i < n) idx sh"

definition elem :: "tensor \<Rightarrow> nat list \<Rightarrow> real" where
  "elem t idx = data t ! ravel (shape t) idx"

definition tabulate :: "nat list \<Rightarrow> (nat list \<Rightarrow> real) \<Rightarrow> tensor" where
  "tabulate sh f = \<lparr>shape = sh, data = map (\<lambda>j. f (unravel sh j)) [0..<prod_list sh]\<rparr>"

text \<open>Elementwise unary operations (\<open>exp\<close>, \<open>pow(2)\<close>, adding or multiplying a scalar).\<close>

definition map_t :: "(real \<Rightarrow> real) \<Rightarrow> tensor \<Rightarrow> tensor" where
  "map_t f t = \<lparr>shape = shape t, data = map f (data t)\<rparr>"

text \<open>\<open>t.unsqueeze(d)\<close>: a new axis of size 1 at position \<open>d\<close>; the elements stay.\<close>

definition unsqueeze :: "nat \<Rightarrow> tensor \<Rightarrow> tensor result" where
  "unsqueeze d t =
     (if d \<le> rank t
      then Inr \<lparr>shape = take d (shape t) @ [1] @ drop d (shape t), data = data t\<rparr>
      else Inl IndexError)"

text \<open>
  \<open>t.repeat(*reps)\<close>: fewer repeat counts than axes, or a negative count, raise;
  with more counts than axes the tensor gets leading axes of size 1.
\<close>

definition repeat :: "int list \<Rightarrow> tensor \<Rightarrow> tensor result" where
  "repeat reps t =
     (if length reps < rank t \<or> list_ex (\<lambda>r. r < 0) reps then Inl RuntimeError
      else let sh = replicate (length reps - rank t) 1 @ shape t;
               out = map2 (\<lambda>r n. nat r * n) reps sh
           in Inr (tabulate out (\<lambda>idx. data t ! ravel sh (map2 (\<lambda>i n. i mod n) idx sh))))"

text \<open>Broadcasting of two shapes, aligned at the last axis.\<close>

fun broadcast_rev :: "nat list \<Rightarrow> nat list \<Rightarrow> nat list option" where
  "broadcast_rev [] ys = Some ys"
| "broadcast_rev xs [] = Some xs"
| "broadcast_rev (x # xs) (y # ys) =
     (if x = y \<or> y = 1 then map_option ((#) x) (broadcast_rev xs ys)
      else if x = 1 then map_option ((#) y) (broadcast_rev xs ys)
      else None)"

definition broadcast_shapes :: "nat list \<Rightarrow> nat list \<Rightarrow> nat list option" where
  "broadcast_shapes a b = map_option rev (broadcast_rev (rev a) (rev b))"

text \<open>The element of a tensor of shape \<open>sh\<close> that a broadcast result reads at \<open>idx\<close>.\<close>

definition bc_index :: "nat list \<Rightarrow> nat list \<Rightarrow> nat list" where
  "bc_index sh idx =
     map2 (\<lambda>i n. if n = 1 then 0 else i) (drop (length idx - length sh) idx) sh"

definition bc_at :: "tensor \<Rightarrow> nat list \<Rightarrow> real" where
  "bc_at t idx = elem t (bc_index (shape t) idx)"

text \<open>An out-of-place binary operation \<open>a.op(b)\<close>, and the in-place \<open>a.op_(b)\<close>,
  which raises when broadcasting would change the shape of \<open>a\<close>.\<close>

definition binop :: "(real \<Rightarrow> real \<Rightarrow> real) \<Rightarrow> tensor \<Rightarrow> tensor \<Rightarrow> tensor result" where
  "binop f a b =
     (case broadcast_shapes (shape a) (shape b) of
        None \<Rightarrow> Inl RuntimeError
      | Some sh \<Rightarrow> Inr (tabulate sh (\<lambda>idx. f (bc_at a idx) (bc_at b idx))))"

definition binop_inplace :: "(real \<Rightarrow> real \<Rightarrow> real) \<Rightarrow> tensor \<Rightarrow> tensor \<Rightarrow> tensor result" where
  "binop_inplace f a b =
     (case broadcast_shapes (shape a) (shape b) of
        None \<Rightarrow> Inl RuntimeError
      | Some sh \<Rightarrow>
          if sh = shape a then Inr (tabulate sh (\<lambda>idx. f (bc_at a idx) (bc_at b idx)))
          else Inl RuntimeError)"

text \<open>
  \<open>t.sum(d)\<close> removes axis \<open>d\<close>; \<open>t.mean(d)\<close> divides the sum by the size of the
  axis. An axis out of range raises; a tensor of rank 0 accepts axis 0.
\<close>

definition sum_dim :: "nat \<Rightarrow> tensor \<Rightarrow> tensor result" where
  "sum_dim d t =
     (if rank t = 0 \<and> d = 0 then Inr t
      else if d < rank t
      then Inr (tabulate (take d (shape t) @ drop (Suc d) (shape t))
                 (\<lambda>idx. \<Sum>k \<leftarrow> [0..<shape t ! d]. elem t (take d idx @ [k] @ drop d idx)))
      else Inl IndexError)"

definition mean_dim :: "nat \<Rightarrow> tensor \<Rightarrow> tensor result" where
  "mean_dim d t =
     (if rank t = 0 \<and> d = 0 then Inr t
      else if d < rank t
      then (if shape t ! d = 0 then Inl NotANumber
            else bindE (sum_dim d t) (\<lambda>s. Inr (map_t (\<lambda>x. x / real (shape t ! d)) s)))
      else Inl IndexError)"

text \<open>\<open>t[:1]\<close>: the first slice along axis 0.\<close>

definition first_slice :: "tensor \<Rightarrow> tensor result" where
  "first_slice t =
     (case shape t of
        [] \<Rightarrow> Inl IndexError
      | n # ns \<Rightarrow> Inr \<lparr>shape = min 1 n # ns, data = take (min 1 n * prod_list ns) (data t)\<rparr>)"

text \<open>\<open>torch.log\<close>: defined on the reals where every element is positive.\<close>

definition log_t :: "tensor \<Rightarrow> tensor result" where
  "log_t t = (if list_all (\<lambda>x. 0 < x) (data t) then Inr (map_t ln t) else Inl NotANumber)"

text \<open>
  \<open>torch.erf\<close>, the error function, by its power series
  \<open>2/\<surd>\<pi> \<cdot> \<Sum>k. (-1)^k x^(2k+1) / (k! (2k+1))\<close>.
\<close>

definition erf_coeff :: "nat \<Rightarrow> real" where
  "erf_coeff n =
     (if odd n then 2 / sqrt pi * (- 1) ^ (n div 2) / (real n * fact (n div 2)) else 0)"

definition erf :: "real \<Rightarrow> real" where
  "erf x = (\<Sum>n. erf_coeff n * x ^ n)"

section \<open>The Normal distribution (lib/distributions/normal.py)\<close>

text \<open>
  The object's attributes; \<open>None\<close> is an unset attribute. \<open>sample_cache\<close> is the
  attribute \<open>_sample\<close>.
\<close>

record normal =
  mean_reset_value :: tensor
  log_var_reset_value :: tensor
  mean :: "tensor option"
  log_var :: "tensor option"
  sample_cache :: "tensor option"

text \<open>\<open>Normal.__init__\<close>: the reset values are zero vectors of \<open>n_variables\<close> entries.\<close>

definition zeros :: "nat list \<Rightarrow> tensor" where
  "zeros sh = \<lparr>shape = sh, data = replicate (prod_list sh) 0\<rparr>"

definition init_normal :: "tensor option \<Rightarrow> tensor option \<Rightarrow> nat \<Rightarrow> normal" where
  "init_normal m lv n_variables =
     \<lparr>mean_reset_value = zeros [n_variables], log_var_reset_value = zeros [n_variables],
      mean = m, log_var = lv, sample_cache = None\<rparr>"

text \<open>
  \<open>x.unsqueeze(1).repeat(1, n_samples, 1, ...)\<close> with \<open>k\<close> trailing ones: the
  parameters copied along a new sample axis.
\<close>

definition across_samples :: "int \<Rightarrow> nat \<Rightarrow> tensor \<Rightarrow> tensor result" where
  "across_samples n_samples k t =
     bindE (unsqueeze 1 t) (repeat ([1, n_samples] @ replicate k 1))"

text \<open>
  The fresh noise \<open>mean.data.new(mean.size()).normal_()\<close>: the draws are an argument
  of the model, \<open>noise j\<close> being the \<open>j\<close>-th number drawn.
\<close>

definition normal_noise :: "(nat \<Rightarrow> real) \<Rightarrow> nat list \<Rightarrow> tensor" where
  "normal_noise noise sh = \<lparr>shape = sh, data = map noise [0..<prod_list sh]\<rparr>"

text \<open>The standard deviation \<open>self.log_var.mul(0.5).exp_()\<close> (lines 34 and 81).\<close>

definition std_of :: "tensor \<Rightarrow> tensor" where
  "std_of lv = map_t exp (map_t (\<lambda>x. x * 0.5) lv)"

text \<open>
  The block \<open>if len(self.mean.size()) == 2:\<close> of \<open>sample\<close> and \<open>cdf\<close>, which
  repeats both tensors along a new sample axis, and the block of \<open>log_prob\<close>,
  which has a second branch for rank 4.
\<close>

definition expand2 :: "int \<Rightarrow> tensor \<Rightarrow> tensor \<Rightarrow> (tensor \<times> tensor) result" where
  "expand2 n_samples m x =
     (if rank m = 2
      then bindE (across_samples n_samples 1 m) (\<lambda>m'.
           bindE (across_samples n_samples 1 x) (\<lambda>x'. Inr (m', x')))
      else Inr (m, x))"

definition expand24 :: "int \<Rightarrow> tensor \<Rightarrow> tensor \<Rightarrow> (tensor \<times> tensor) result" where
  "expand24 n_samples m x =
     (if rank m = 2
      then bindE (across_samples n_samples 1 m) (\<lambda>m'.
           bindE (across_samples n_samples 1 x) (\<lambda>x'. Inr (m', x')))
      else if rank m = 4
      then bindE (across_samples n_samples 3 m) (\<lambda>m'.
           bindE (across_samples n_samples 3 x) (\<lambda>x'. Inr (m', x')))
      else Inr (m, x))"

text \<open>Lines 38 and 39: \<open>rand_normal.mul_(std).add_(mean)\<close> on fresh noise.\<close>

definition reparameterize :: "(nat \<Rightarrow> real) \<Rightarrow> tensor \<Rightarrow> tensor \<Rightarrow> tensor result" where
  "reparameterize noise m' std' =
     bindE (binop_inplace (*) (normal_noise noise (shape m')) std')
           (\<lambda>r. binop_inplace (+) r m')"

text \<open>
  \<open>Normal.sample\<close>. The result is the returned value (or the exception) and the
  object afterwards.
\<close>

definition sample :: "normal \<Rightarrow> int \<Rightarrow> bool \<Rightarrow> (nat \<Rightarrow> real) \<Rightarrow> tensor result \<times> normal" where
  "sample s n_samples resample noise =
     (if sample_cache s = None \<or> resample then
        (case log_var s of
           None \<Rightarrow> (Inl AttributeError, s)
         | Some lv \<Rightarrow>
             (case mean s of
                None \<Rightarrow> (Inl AttributeError, s)
              | Some m \<Rightarrow>
                  (case bindE (expand2 n_samples m (std_of lv))
                              (\<lambda>(m', std'). reparameterize noise m' std') of
                     Inl e \<Rightarrow> (Inl e, s)
                   | Inr r \<Rightarrow> (Inr r, s\<lparr>sample_cache := Some r\<rparr>))))
      else (case sample_cache s of
              Some c \<Rightarrow> (Inr c, s)
            | None \<Rightarrow> (Inl AttributeError, s)))"

text \<open>Line 86: \<open>(1 + torch.erf((value - mean) / (math.sqrt(2) * std).add(1e-5))).mul_(0.5)\<close>.\<close>

definition cdf_expr :: "tensor \<Rightarrow> tensor \<Rightarrow> tensor \<Rightarrow> tensor result" where
  "cdf_expr v m' std' =
     bindE (binop (-) v m') (\<lambda>d.
     bindE (binop (/) d (map_t (\<lambda>x. x + 1 / 100000) (map_t (\<lambda>x. sqrt 2 * x) std')))
       (\<lambda>q. Inr (map_t (\<lambda>x. x * 0.5) (map_t (\<lambda>x. 1 + x) (map_t erf q)))))"

text \<open>\<open>Normal.cdf\<close>.\<close>

definition cdf :: "normal \<Rightarrow> tensor \<Rightarrow> tensor result" where
  "cdf s v =
     (if rank v < 2 then Inl IndexError
      else case log_var s of
        None \<Rightarrow> Inl AttributeError
      | Some lv \<Rightarrow>
          (case mean s of
             None \<Rightarrow> Inl AttributeError
           | Some m \<Rightarrow>
               bindE (expand2 (int (shape v ! 1)) m (std_of lv))
                 (\<lambda>(m', std'). cdf_expr v m' std')))"

text \<open>
  The argument of \<open>log_prob\<close>: \<open>None\<close>, a tensor, or a tuple \<open>(lo, hi)\<close>.
\<close>

datatype value_arg = NoneV | Val tensor | Interval tensor tensor

text \<open>
  Line 70, the returned expression of \<open>log_prob\<close>:
  \<open>(log_var.add(math.log(2 * math.pi)).add_((value.sub(mean).pow_(2)).div_(log_var.exp().add(1e-5)))).mul_(-0.5)\<close>.
\<close>

definition density_expr :: "tensor \<Rightarrow> tensor \<Rightarrow> tensor \<Rightarrow> tensor result" where
  "density_expr v m' lv' =
     bindE (binop (-) v m') (\<lambda>d.
     bindE (binop_inplace (/) (map_t (\<lambda>x. x ^ 2) d)
              (map_t (\<lambda>x. x + 1 / 100000) (map_t exp lv'))) (\<lambda>q.
     bindE (binop_inplace (+) (map_t (\<lambda>x. x + ln (2 * pi)) lv') q) (\<lambda>r.
     Inr (map_t (\<lambda>x. x * (- 0.5)) r))))"

text \<open>Lines 57 to 70 of \<open>log_prob\<close>: the log density at a tensor.\<close>

definition log_density :: "normal \<Rightarrow> tensor \<Rightarrow> tensor result" where
  "log_density s v =
     (case (mean s, log_var s) of
        (Some m, Some lv) \<Rightarrow>
          if rank v < 2 then Inl IndexError
          else bindE (expand24 (int (shape v ! 1)) m lv)
                 (\<lambda>(m', lv'). density_expr v m' lv')
      | _ \<Rightarrow> Inl (AssertionError ''Mean or log variance are None.''))"

text \<open>The interval mass of line 52, \<open>torch.log(self.cdf(hi) - self.cdf(lo) + 1e-6)\<close>.\<close>

definition interval_log_mass :: "normal \<Rightarrow> tensor \<Rightarrow> tensor \<Rightarrow> tensor result" where
  "interval_log_mass s lo hi =
     bindE (cdf s hi) (\<lambda>c_hi.
     bindE (cdf s lo) (\<lambda>c_lo.
     bindE (binop (-) c_hi c_lo) (\<lambda>d.
     log_t (map_t (\<lambda>x. x + 1 / 1000000) d))))"

text \<open>\<open>Normal.log_prob\<close>.\<close>

definition log_prob :: "normal \<Rightarrow> value_arg \<Rightarrow> (nat \<Rightarrow> real) \<Rightarrow> tensor result \<times> normal" where
  "log_prob s value noise =
     (case value of
        Interval lo hi \<Rightarrow> (interval_log_mass s lo hi, s)
      | Val v \<Rightarrow> (log_density s v, s)
      | NoneV \<Rightarrow>
          (case sample s 1 False noise of
             (Inl e, s') \<Rightarrow> (Inl e, s')
           | (Inr v, s') \<Rightarrow> (log_density s' v, s')))"

text \<open>\<open>Normal.re_init_mean\<close>, \<open>Normal.re_init_log_var\<close> and \<open>Normal.re_init\<close>.\<close>

definition reset_param :: "tensor option \<Rightarrow> tensor \<Rightarrow> int \<Rightarrow> bool \<Rightarrow> tensor result" where
  "reset_param value reset_value batch_size sample_dim =
     bindE (case value of Some v \<Rightarrow> Inr v | None \<Rightarrow> unsqueeze 0 reset_value) (\<lambda>p.
     bindE (case shape p of
              [] \<Rightarrow> Inl IndexError
            | n # _ \<Rightarrow>
                if int n \<noteq> batch_size
                then bindE (first_slice p) (repeat [batch_size, 1])
                else Inr p) (\<lambda>p.
     if sample_dim then unsqueeze 1 p else Inr p))"

definition re_init_mean :: "normal \<Rightarrow> tensor option \<Rightarrow> int \<Rightarrow> bool \<Rightarrow> unit result \<times> normal" where
  "re_init_mean s value batch_size sample_dim =
     (case reset_param value (mean_reset_value s) batch_size sample_dim of
        Inl e \<Rightarrow> (Inl e, s)
      | Inr m \<Rightarrow> (Inr (), s\<lparr>mean := Some m, sample_cache := None\<rparr>))"

definition re_init_log_var :: "normal \<Rightarrow> tensor option \<Rightarrow> int \<Rightarrow> bool \<Rightarrow> unit result \<times> normal" where
  "re_init_log_var s value batch_size sample_dim =
     (case reset_param value (log_var_reset_value s) batch_size sample_dim of
        Inl e \<Rightarrow> (Inl e, s)
      | Inr lv \<Rightarrow> (Inr (), s\<lparr>log_var := Some lv, sample_cache := None\<rparr>))"

definition re_init :: "normal \<Rightarrow> tensor option \<Rightarrow> tensor option \<Rightarrow> int \<Rightarrow> bool \<Rightarrow> unit result \<times> normal" where
  "re_init s mean_value log_var_value batch_size sample_dim =
     (case re_init_mean s mean_value batch_size sample_dim of
        (Inl e, s') \<Rightarrow> (Inl e, s')
      | (Inr _, s') \<Rightarrow> re_init_log_var s' log_var_value batch_size sample_dim)"

section \<open>The latent variable model (lib/models/model.py)\<close>

text \<open>
  A latent level is used through \<open>latent_level.latent.kl_divergence(analytical)\<close>
  only; the class of the latent variable is not part of the sources at hand, so the
  method is a field of the level: what it returns for each value of the flag.
\<close>

record latent_level =
  kl_divergence :: "bool \<Rightarrow> tensor result"

record model =
  latent_levels :: "latent_level list"
  output_dist :: normal
  output_interval :: "real option"

text \<open>
  The inner loop of \<open>kl_divergences\<close>,
  \<open>for dim in range(2, len(level_kl.data.shape)): level_kl = level_kl.sum(dim)\<close>:
  the range is fixed before the first sum.
\<close>

fun sum_dims :: "nat list \<Rightarrow> tensor \<Rightarrow> tensor result" where
  "sum_dims [] t = Inr t"
| "sum_dims (d # ds) t = bindE (sum_dim d t) (sum_dims ds)"

definition reduce_level_kl :: "tensor \<Rightarrow> tensor result" where
  "reduce_level_kl level_kl =
     bindE (sum_dims [2..<rank level_kl] level_kl) (mean_dim 1)"

text \<open>The loop over the levels, \<open>level_ind\<close> counting from the bottom.\<close>

fun kl_levels :: "nat \<Rightarrow> nat \<Rightarrow> latent_level list \<Rightarrow> tensor list result" where
  "kl_levels n level_ind [] = Inr []"
| "kl_levels n level_ind (latent_level # rest) =
     bindE (kl_divergence latent_level (level_ind = n - 1)) (\<lambda>level_kl.
     bindE (reduce_level_kl level_kl) (\<lambda>level_kl.
     bindE (kl_levels n (Suc level_ind) rest) (\<lambda>kl. Inr (level_kl # kl))))"

fun mean_all :: "tensor list \<Rightarrow> tensor list result" where
  "mean_all [] = Inr []"
| "mean_all (t # ts) =
     bindE (mean_dim 0 t) (\<lambda>m. bindE (mean_all ts) (\<lambda>ms. Inr (m # ms)))"

definition kl_divergences :: "model \<Rightarrow> bool \<Rightarrow> tensor list result" where
  "kl_divergences M averaged =
     bindE (kl_levels (length (latent_levels M)) 0 (latent_levels M)) (\<lambda>kl.
     if averaged then mean_all kl else Inr kl)"




text \<open>
  Python's \<open>sum(kl)\<close>: the number 0 plus the tensors, from left to right. The
  number 0 is the tensor of rank 0 holding 0.
\<close>

definition scalar :: "real \<Rightarrow> tensor" where
  "scalar x = \<lparr>shape = [], data = [x]\<rparr>"




section \<open>What the specification asks, and example objects\<close>

text \<open>A distribution over one variable, batch size 1, with mean 0 and log variance 0.\<close>

definition t11 :: "real \<Rightarrow> tensor" where
  "t11 x = \<lparr>shape = [1, 1], data = [x]\<rparr>"

definition std_normal :: normal where
  "std_normal = init_normal (Some (t11 0)) (Some (t11 0)) 1"

definition two_draws :: tensor where
  "two_draws = \<lparr>shape = [1, 2, 1], data = [0, 1]\<rparr>"

text \<open>
  The Gaussian log density as the specification writes it, at one element:
  \<open>-0.5 * (log_var + log(2\<pi>) + (value - mean)^2 / (exp(log_var) + 1e-5))\<close>.
\<close>

definition gauss_log_density :: "real \<Rightarrow> real \<Rightarrow> real \<Rightarrow> real" where
  "gauss_log_density x mu lv = - 0.5 * (lv + ln (2 * pi) + (x - mu) ^ 2 / (exp lv + 1 / 100000))"

text \<open>
  The element of a parameter tensor that \<open>log_prob\<close> pairs with the element
  \<open>idx\<close> of the value: where the parameters are repeated along a new sample axis
  (rank 2 or 4) the sample position \<open>idx ! 1\<close> is left out.
\<close>

definition param_index :: "tensor \<Rightarrow> nat list \<Rightarrow> nat list" where
  "param_index m idx = (if rank m = 2 \<or> rank m = 4 then hd idx # drop 2 idx else idx)"

text \<open>Parameters that are vectors of shape \<open>[batch] = [2]\<close>, and a value of
  shape \<open>[batch, sample] = [2, 3]\<close>.\<close>

definition vec_normal :: normal where
  "vec_normal = init_normal (Some (zeros [2])) (Some (zeros [2])) 1"

definition value23 :: tensor where
  "value23 = zeros [2, 3]"

definition zero_noise :: "nat \<Rightarrow> real" where
  "zero_noise j = 0"

text \<open>
  Parameters of a convolutional layer, shape \<open>[batch, channels, height, width]\<close>,
  all sizes 1.
\<close>

definition t1111 :: "real \<Rightarrow> tensor" where
  "t1111 x = \<lparr>shape = [1, 1, 1, 1], data = [x]\<rparr>"

definition conv_normal :: normal where
  "conv_normal = init_normal (Some (t1111 0)) (Some (t1111 0)) 1"

text \<open>
  The objects that \<open>__init__\<close> and the methods of the class produce: a cached sample
  is there only when both parameters are set.
\<close>

definition normal_inv :: "normal \<Rightarrow> bool" where
  "normal_inv s \<longleftrightarrow> (sample_cache s \<noteq> None \<longrightarrow> mean s \<noteq> None \<and> log_var s \<noteq> None)"

definition unset_normal :: normal where
  "unset_normal = init_normal None None 1"

text \<open>
  What the specification asks of \<open>re_init\<close> for one parameter: the given value, or
  the reset vector as one row; brought to \<open>batch_size\<close> rows by repeating the first
  row when the number of rows differs; a sample axis of size 1 inserted at position 1
  when \<open>sample_dim\<close> is set.
\<close>

definition as_row :: "tensor \<Rightarrow> tensor" where
  "as_row t = \<lparr>shape = 1 # shape t, data = data t\<rparr>"

definition to_batch :: "int \<Rightarrow> tensor \<Rightarrow> tensor" where
  "to_batch batch_size p =
     (if int (hd (shape p)) = batch_size then p
      else tabulate [nat batch_size, shape p ! 1] (\<lambda>idx. elem p [0, idx ! 1]))"

definition with_sample_axis :: "bool \<Rightarrow> tensor \<Rightarrow> tensor" where
  "with_sample_axis sample_dim p =
     (if sample_dim then \<lparr>shape = hd (shape p) # 1 # tl (shape p), data = data p\<rparr> else p)"

definition reset_to :: "tensor option \<Rightarrow> tensor \<Rightarrow> int \<Rightarrow> bool \<Rightarrow> tensor" where
  "reset_to value reset_value batch_size sample_dim =
     with_sample_axis sample_dim
       (to_batch batch_size (case value of Some v \<Rightarrow> v | None \<Rightarrow> as_row reset_value))"

text \<open>The values \<open>re_init\<close> accepts: a matrix with at least one row, or any tensor
  that already has \<open>batch_size\<close> entries along axis 0.\<close>

definition resettable :: "int \<Rightarrow> tensor \<Rightarrow> bool" where
  "resettable batch_size p \<longleftrightarrow>
     wf_tensor p \<and> 0 \<le> batch_size \<and>
     ((rank p = 2 \<and> 1 \<le> hd (shape p)) \<or> (1 \<le> rank p \<and> int (hd (shape p)) = batch_size))"

text \<open>An object with a cached sample, and a value with a sample axis and two
  batch entries.\<close>

definition cached_normal :: normal where
  "cached_normal = std_normal\<lparr>sample_cache := Some two_draws\<rparr>"

definition t211 :: tensor where
  "t211 = \<lparr>shape = [2, 1, 1], data = [0, 0]\<rparr>"

definition t21 :: tensor where
  "t21 = \<lparr>shape = [2, 1], data = [3, 4]\<rparr>"

definition two_ones :: tensor where
  "two_ones = \<lparr>shape = [1, 2, 1], data = [1, 1]\<rparr>"

text \<open>
  A model with one latent level whose KL divergence is a tensor of shape
  \<open>[batch, sample, channels, height]\<close>, all sizes 1.
\<close>

definition conv_level :: latent_level where
  "conv_level = \<lparr>kl_divergence = (\<lambda>analytical. Inr (t1111 0))\<rparr>"

definition conv_model :: model where
  "conv_model = \<lparr>latent_levels = [conv_level], output_dist = std_normal, output_interval = None\<rparr>"

text \<open>
  What the specification asks of \<open>conditional_log_likelihoods\<close> for a tensor of
  log probabilities of shape \<open>[batch, sample, features...]\<close>: for batch entry \<open>i\<close>,
  the sum over all feature positions, averaged over the samples. In row-major order
  the features of batch entry \<open>i\<close> and sample \<open>j\<close> are the \<open>K\<close> elements from
  position \<open>(i * S + j) * K\<close> on.
\<close>

definition batch_log_likelihood :: "tensor \<Rightarrow> nat \<Rightarrow> real" where
  "batch_log_likelihood lp i =
     (let S = shape lp ! 1; K = prod_list (drop 2 (shape lp))
      in (\<Sum>j<S. \<Sum>l<K. data lp ! ((i * S + j) * K + l)) / real S)"




text \<open>A tensor of rank 1 given by its elements.\<close>

definition vec :: "nat \<Rightarrow> (nat \<Rightarrow> real) \<Rightarrow> tensor" where
  "vec B f = \<lparr>shape = [B], data = map f [0..<B]\<rparr>"













section \<open>Tensors in a store\<close>

text \<open>
  For the in-place operations the tensors live in a store: a tensor object is a
  reference, the address of its storage together with its shape. An out-of-place
  operation allocates fresh storage for its result, an in-place operation
  (\<open>exp_\<close>, \<open>pow_\<close>, \<open>add_\<close>, \<open>div_\<close>, \<open>mul_\<close>) overwrites the storage of its receiver
  and returns the receiver, and \<open>unsqueeze\<close> returns a view: a reference to the same
  storage with another shape.
\<close>

record tref =
  addr :: nat
  view :: "nat list"

record heap =
  cells :: "nat \<Rightarrow> real list option"
  free :: nat

type_synonym 'a hm = "heap \<Rightarrow> 'a result \<times> heap"

definition returnH :: "'a \<Rightarrow> 'a hm" where
  "returnH x = (\<lambda>h. (Inr x, h))"

definition raiseH :: "error \<Rightarrow> 'a hm" where
  "raiseH e = (\<lambda>h. (Inl e, h))"

definition bindH :: "'a hm \<Rightarrow> ('a \<Rightarrow> 'b hm) \<Rightarrow> 'b hm" where
  "bindH m f = (\<lambda>h. case m h of (Inl e, h') \<Rightarrow> (Inl e, h') | (Inr x, h') \<Rightarrow> f x h')"

definition read :: "heap \<Rightarrow> tref \<Rightarrow> tensor" where
  "read h r = \<lparr>shape = view r, data = (case cells h (addr r) of Some d \<Rightarrow> d | None \<Rightarrow> [])\<rparr>"

definition alloc :: "tensor \<Rightarrow> tref hm" where
  "alloc t = (\<lambda>h. (Inr \<lparr>addr = free h, view = shape t\<rparr>,
                    h\<lparr>cells := (cells h)(free h \<mapsto> data t), free := Suc (free h)\<rparr>))"

definition overwrite :: "tref \<Rightarrow> tensor \<Rightarrow> tref hm" where
  "overwrite r t = (\<lambda>h. (Inr (r\<lparr>view := shape t\<rparr>), h\<lparr>cells := (cells h)(addr r \<mapsto> data t)\<rparr>))"

definition liftH :: "'a result \<Rightarrow> 'a hm" where
  "liftH x = (\<lambda>h. (x, h))"

definition h_map :: "(real \<Rightarrow> real) \<Rightarrow> tref \<Rightarrow> tref hm" where
  "h_map f r = (\<lambda>h. alloc (map_t f (read h r)) h)"

definition h_map_inplace :: "(real \<Rightarrow> real) \<Rightarrow> tref \<Rightarrow> tref hm" where
  "h_map_inplace f r = (\<lambda>h. overwrite r (map_t f (read h r)) h)"

definition h_binop :: "(real \<Rightarrow> real \<Rightarrow> real) \<Rightarrow> tref \<Rightarrow> tref \<Rightarrow> tref hm" where
  "h_binop f a b = (\<lambda>h. bindH (liftH (binop f (read h a) (read h b))) alloc h)"

definition h_binop_inplace :: "(real \<Rightarrow> real \<Rightarrow> real) \<Rightarrow> tref \<Rightarrow> tref \<Rightarrow> tref hm" where
  "h_binop_inplace f a b =
     (\<lambda>h. bindH (liftH (binop_inplace f (read h a) (read h b))) (overwrite a) h)"

definition h_unsqueeze :: "nat \<Rightarrow> tref \<Rightarrow> tref hm" where
  "h_unsqueeze d r =
     (\<lambda>h. bindH (liftH (unsqueeze d (read h r))) (\<lambda>t. returnH (r\<lparr>view := shape t\<rparr>)) h)"

definition h_repeat :: "int list \<Rightarrow> tref \<Rightarrow> tref hm" where
  "h_repeat reps r = (\<lambda>h. bindH (liftH (repeat reps (read h r))) alloc h)"

text \<open>The object with its attributes as references.\<close>

record normal_refs =
  mean_at :: "tref option"
  log_var_at :: "tref option"
  sample_at :: "tref option"

definition across_samples_h :: "int \<Rightarrow> nat \<Rightarrow> tref \<Rightarrow> tref hm" where
  "across_samples_h n_samples k r =
     bindH (h_unsqueeze 1 r) (h_repeat ([1, n_samples] @ replicate k 1))"

definition expand2_h :: "int \<Rightarrow> tref \<Rightarrow> tref \<Rightarrow> (tref \<times> tref) hm" where
  "expand2_h n_samples m x =
     (if length (view m) = 2
      then bindH (across_samples_h n_samples 1 m) (\<lambda>m'.
           bindH (across_samples_h n_samples 1 x) (\<lambda>x'. returnH (m', x')))
      else returnH (m, x))"

definition expand24_h :: "int \<Rightarrow> tref \<Rightarrow> tref \<Rightarrow> (tref \<times> tref) hm" where
  "expand24_h n_samples m x =
     (if length (view m) = 2
      then bindH (across_samples_h n_samples 1 m) (\<lambda>m'.
           bindH (across_samples_h n_samples 1 x) (\<lambda>x'. returnH (m', x')))
      else if length (view m) = 4
      then bindH (across_samples_h n_samples 3 m) (\<lambda>m'.
           bindH (across_samples_h n_samples 3 x) (\<lambda>x'. returnH (m', x')))
      else returnH (m, x))"

text \<open>Line 70 of \<open>log_prob\<close>, operation by operation.\<close>

definition density_expr_h :: "tref \<Rightarrow> tref \<Rightarrow> tref \<Rightarrow> tref hm" where
  "density_expr_h v m' lv' =
     bindH (h_map (\<lambda>x. x + ln (2 * pi)) lv') (\<lambda>a.
     bindH (h_binop (-) v m') (\<lambda>d.
     bindH (h_map_inplace (\<lambda>x. x ^ 2) d) (\<lambda>d.
     bindH (h_map exp lv') (\<lambda>e.
     bindH (h_map (\<lambda>x. x + 1 / 100000) e) (\<lambda>e.
     bindH (h_binop_inplace (/) d e) (\<lambda>q.
     bindH (h_binop_inplace (+) a q) (\<lambda>r.
     h_map_inplace (\<lambda>x. x * (- 0.5)) r)))))))"

text \<open>\<open>log_prob\<close> at a tensor (lines 57 to 70).\<close>

definition log_density_h :: "normal_refs \<Rightarrow> tref \<Rightarrow> tref hm" where
  "log_density_h s v =
     (case (mean_at s, log_var_at s) of
        (Some m, Some lv) \<Rightarrow>
          if length (view v) < 2 then raiseH IndexError
          else bindH (expand24_h (int (view v ! 1)) m lv)
                 (\<lambda>(m', lv'). density_expr_h v m' lv')
      | _ \<Rightarrow> raiseH (AssertionError ''Mean or log variance are None.''))"

text \<open>\<open>self.log_var.mul(0.5).exp_()\<close>, and line 86 of \<open>cdf\<close>.\<close>

definition std_of_h :: "tref \<Rightarrow> tref hm" where
  "std_of_h lv = bindH (h_map (\<lambda>x. x * 0.5) lv) (h_map_inplace exp)"

definition cdf_expr_h :: "tref \<Rightarrow> tref \<Rightarrow> tref \<Rightarrow> tref hm" where
  "cdf_expr_h v m' std' =
     bindH (h_binop (-) v m') (\<lambda>d.
     bindH (h_map (\<lambda>x. sqrt 2 * x) std') (\<lambda>s.
     bindH (h_map (\<lambda>x. x + 1 / 100000) s) (\<lambda>den.
     bindH (h_binop (/) d den) (\<lambda>q.
     bindH (h_map erf q) (\<lambda>e.
     bindH (h_map (\<lambda>x. 1 + x) e) (\<lambda>out.
     h_map_inplace (\<lambda>x. x * 0.5) out))))))"

definition cdf_h :: "normal_refs \<Rightarrow> tref \<Rightarrow> tref hm" where
  "cdf_h s v =
     (if length (view v) < 2 then raiseH IndexError
      else case log_var_at s of
        None \<Rightarrow> raiseH AttributeError
      | Some lv \<Rightarrow>
          bindH (std_of_h lv) (\<lambda>std.
          (case mean_at s of
             None \<Rightarrow> raiseH AttributeError
           | Some m \<Rightarrow>
               bindH (expand2_h (int (view v ! 1)) m std)
                 (\<lambda>(m', std'). cdf_expr_h v m' std'))))"

text \<open>A later store leaves an earlier one as it is: every address allocated in the
  earlier store holds the same numbers.\<close>

definition unchanged :: "heap \<Rightarrow> heap \<Rightarrow> bool" where
  "unchanged h h' \<longleftrightarrow> free h \<le> free h' \<and> (\<forall>a. a < free h \<longrightarrow> cells h' a = cells h a)"

text \<open>The pure object that a store and an object of references stand for.\<close>

definition normal_of :: "heap \<Rightarrow> normal_refs \<Rightarrow> tensor \<Rightarrow> tensor \<Rightarrow> normal" where
  "normal_of h s mr lr =
     \<lparr>mean_reset_value = mr, log_var_reset_value = lr,
      mean = map_option (read h) (mean_at s), log_var = map_option (read h) (log_var_at s),
      sample_cache = map_option (read h) (sample_at s)\<rparr>"

text \<open>A store holding mean, log variance and a value, and the object over it.\<close>

definition ex_heap :: heap where
  "ex_heap = \<lparr>cells = (\<lambda>a. if a = 0 then Some [0] else if a = 1 then Some [0]
                          else if a = 2 then Some [0, 1] else None),
              free = 3\<rparr>"

definition ex_refs :: normal_refs where
  "ex_refs = \<lparr>mean_at = Some \<lparr>addr = 0, view = [1, 1]\<rparr>,
              log_var_at = Some \<lparr>addr = 1, view = [1, 1]\<rparr>, sample_at = None\<rparr>"

definition ex_value :: tref where
  "ex_value = \<lparr>addr = 2, view = [1, 2, 1]\<rparr>"

text \<open>
  A computation keeps the store \<open>h0\<close> when, started in any store that leaves \<open>h0\<close>
  unchanged, it ends in such a store, with a result that satisfies \<open>Q\<close>.
\<close>

definition keeps :: "heap \<Rightarrow> 'a hm \<Rightarrow> ('a \<Rightarrow> bool) \<Rightarrow> bool" where
  "keeps h0 m Q \<longleftrightarrow>
     (\<forall>h res h'. unchanged h0 h \<longrightarrow> m h = (res, h') \<longrightarrow>
        unchanged h0 h' \<and> (\<forall>x. res = Inr x \<longrightarrow> Q x))"

text \<open>A reference is fresh for \<open>h0\<close> when its storage was allocated after \<open>h0\<close>.\<close>

definition fresh :: "heap \<Rightarrow> tref \<Rightarrow> bool" where
  "fresh h0 r \<longleftrightarrow> free h0 \<le> addr r"

section \<open>Indexing tensors\<close>

lemma valid_index_Nil [simp]: "valid_index [] idx \<longleftrightarrow> idx = []"
  by (simp add: valid_index_def)

lemma valid_index_Cons:
  "valid_index (n # ns) idx \<longleftrightarrow> (\<exists>i is. idx = i # is \<and> i < n \<and> valid_index ns is)"
  by (cases idx) (auto simp: valid_index_def)

lemma valid_index_length: "valid_index sh idx \<Longrightarrow> length idx = length sh"
  by (simp add: valid_index_def list_all2_lengthD)

lemma valid_index_nth: "valid_index sh idx \<Longrightarrow> k < length sh \<Longrightarrow> idx ! k < sh ! k"
  by (simp add: valid_index_def list_all2_conv_all_nth)

lemma ravel_less: "valid_index sh idx \<Longrightarrow> ravel sh idx < prod_list sh"
proof (induction sh arbitrary: idx)
  case Nil
  then show ?case by simp
next
  case (Cons n ns)
  then obtain i "is" where idx: "idx = i # is" and i: "i < n" and v: "valid_index ns is"
    by (auto simp: valid_index_Cons)
  have r: "ravel ns is < prod_list ns" using Cons.IH v by simp
  have "i * prod_list ns + ravel ns is < i * prod_list ns + prod_list ns"
    using r by simp
  also have "\<dots> = Suc i * prod_list ns" by simp
  also have "\<dots> \<le> n * prod_list ns"
    using i by (intro mult_le_mono1) simp
  finally show ?case by (simp add: idx)
qed

lemma unravel_ravel: "valid_index sh idx \<Longrightarrow> unravel sh (ravel sh idx) = idx"
proof (induction sh arbitrary: idx)
  case Nil
  then show ?case by simp
next
  case (Cons n ns)
  then obtain i "is" where idx: "idx = i # is" and i: "i < n" and v: "valid_index ns is"
    by (auto simp: valid_index_Cons)
  have r: "ravel ns is < prod_list ns" using v by (rule ravel_less)
  show ?case using Cons.IH [OF v] r by (simp add: idx)
qed

lemma unravel_valid: "j < prod_list sh \<Longrightarrow> valid_index sh (unravel sh j)"
proof (induction sh arbitrary: j)
  case Nil
  then show ?case by simp
next
  case (Cons n ns)
  from Cons.prems have pos: "0 < prod_list ns"
    by (cases "prod_list ns = 0") auto
  have "j div prod_list ns < n"
    using Cons.prems pos by (simp add: less_mult_imp_div_less mult.commute)
  moreover have "valid_index ns (unravel ns (j mod prod_list ns))"
    using Cons.IH pos by simp
  ultimately show ?case by (simp add: valid_index_Cons)
qed

lemma ravel_unravel: "j < prod_list sh \<Longrightarrow> ravel sh (unravel sh j) = j"
proof (induction sh arbitrary: j)
  case Nil
  then show ?case by simp
next
  case (Cons n ns)
  from Cons.prems have pos: "0 < prod_list ns"
    by (cases "prod_list ns = 0") auto
  have "ravel ns (unravel ns (j mod prod_list ns)) = j mod prod_list ns"
    using Cons.IH pos by simp
  then show ?case by simp
qed

lemma shape_tabulate [simp]: "shape (tabulate sh f) = sh"
  by (simp add: tabulate_def)

lemma wf_tabulate [simp]: "wf_tensor (tabulate sh f)"
  by (simp add: tabulate_def wf_tensor_def)

lemma elem_tabulate: "valid_index sh idx \<Longrightarrow> elem (tabulate sh f) idx = f idx"
  by (simp add: elem_def tabulate_def ravel_less unravel_ravel)

lemma tensor_eqI:
  assumes "wf_tensor a" "wf_tensor b" "shape a = shape b"
    and "\<And>idx. valid_index (shape a) idx \<Longrightarrow> elem a idx = elem b idx"
  shows "a = b"
proof -
  have "data a = data b"
  proof (rule nth_equalityI)
    show "length (data a) = length (data b)"
      using assms by (simp add: wf_tensor_def)
  next
    fix j assume "j < length (data a)"
    then have j: "j < prod_list (shape a)" using assms by (simp add: wf_tensor_def)
    have "elem a (unravel (shape a) j) = elem b (unravel (shape a) j)"
      using assms(4) unravel_valid [OF j] by simp
    then show "data a ! j = data b ! j"
      using j assms(3) by (simp add: elem_def ravel_unravel)
  qed
  then show ?thesis using assms(3) by simp
qed

section \<open>Evaluation on concrete tensors\<close>

lemmas tensor_eval =
  bindE_def rank_def unsqueeze_def repeat_def tabulate_def map_t_def
  broadcast_shapes_def bc_at_def bc_index_def elem_def binop_def binop_inplace_def
  sum_dim_def mean_dim_def first_slice_def across_samples_def normal_noise_def
  upt_conv_Cons

section \<open>Normal.sample\<close>

lemma sample_sets_cache:
  assumes "sample s n r noise = (Inr c, s')"
  shows "sample_cache s' = Some c"
  using assms
  by (auto simp: sample_def Let_def split: if_splits option.splits sum.splits prod.splits)

text \<open>
  C6. Once a call of \<open>sample\<close> has returned a tensor, every later call with
  \<open>resample\<close> false returns that same tensor and leaves the object as it is,
  whatever \<open>n_samples\<close> and whatever noise would be drawn.
\<close>

theorem sample_reuses_cache:
  assumes "sample s n0 r0 noise0 = (Inr c, s')"
  shows "sample s' n False noise = (Inr c, s')"
proof -
  have "sample_cache s' = Some c"
    using assms by (rule sample_sets_cache)
  then show ?thesis
    by (simp add: sample_def)
qed

theorem sample_reuses_cache_witness:
  "sample std_normal 2 True (\<lambda>j. real j)
     = (Inr two_draws, std_normal\<lparr>sample_cache := Some two_draws\<rparr>)
   \<and> sample (std_normal\<lparr>sample_cache := Some two_draws\<rparr>) 5 False (\<lambda>j. 7)
     = (Inr two_draws, std_normal\<lparr>sample_cache := Some two_draws\<rparr>)"
proof -
  have drawn: "sample std_normal 2 True (\<lambda>j. real j)
     = (Inr two_draws, std_normal\<lparr>sample_cache := Some two_draws\<rparr>)"
    by (simp add: sample_def expand2_def std_of_def reparameterize_def std_normal_def
        init_normal_def t11_def two_draws_def tensor_eval)
  from sample_reuses_cache [OF drawn, of 5 "\<lambda>j. 7"] drawn show ?thesis
    by simp
qed

section \<open>Tensor operations on matching shapes\<close>

lemma tabulate_cong:
  "(\<And>idx. valid_index sh idx \<Longrightarrow> f idx = g idx) \<Longrightarrow> tabulate sh f = tabulate sh g"
  by (simp add: tabulate_def unravel_valid)

lemma shape_map_t [simp]: "shape (map_t f t) = shape t"
  by (simp add: map_t_def)

lemma wf_map_t [simp]: "wf_tensor (map_t f t) = wf_tensor t"
  by (simp add: map_t_def wf_tensor_def)

lemma rank_map_t [simp]: "rank (map_t f t) = rank t"
  by (simp add: rank_def)

lemma elem_map_t:
  "wf_tensor t \<Longrightarrow> valid_index (shape t) idx \<Longrightarrow> elem (map_t f t) idx = f (elem t idx)"
  using ravel_less [of "shape t" idx] by (simp add: elem_def map_t_def wf_tensor_def)

lemma broadcast_rev_same [simp]: "broadcast_rev xs xs = Some xs"
  by (induction xs) auto

lemma broadcast_shapes_same [simp]: "broadcast_shapes sh sh = Some sh"
  by (simp add: broadcast_shapes_def)

lemma bc_index_same: "valid_index sh idx \<Longrightarrow> bc_index sh idx = idx"
proof -
  assume v: "valid_index sh idx"
  then have len: "length idx = length sh" by (rule valid_index_length)
  show ?thesis
  proof (rule nth_equalityI)
    show "length (bc_index sh idx) = length idx" using len by (simp add: bc_index_def)
  next
    fix k assume "k < length (bc_index sh idx)"
    then have k: "k < length sh" using len by (simp add: bc_index_def)
    then have "idx ! k < sh ! k" using v by (simp add: valid_index_nth)
    then show "bc_index sh idx ! k = idx ! k"
      using k len by (auto simp: bc_index_def)
  qed
qed

lemma bc_at_same: "valid_index (shape t) idx \<Longrightarrow> bc_at t idx = elem t idx"
  by (simp add: bc_at_def bc_index_same)

lemma binop_same:
  "shape a = shape b \<Longrightarrow>
   binop f a b = Inr (tabulate (shape a) (\<lambda>idx. f (elem a idx) (elem b idx)))"
  by (auto simp: binop_def bc_at_same intro!: tabulate_cong)

lemma binop_inplace_same:
  "shape a = shape b \<Longrightarrow>
   binop_inplace f a b = Inr (tabulate (shape a) (\<lambda>idx. f (elem a idx) (elem b idx)))"
  by (auto simp: binop_inplace_def bc_at_same intro!: tabulate_cong)

lemma map2_mod_valid: "valid_index sh idx \<Longrightarrow> map2 (\<lambda>i n. i mod n) idx sh = idx"
  by (induction sh arbitrary: idx) (auto simp: valid_index_Cons)

lemma across_samples_eq:
  assumes "shape t = b # rest" "length rest = k" "0 \<le> n"
  shows "across_samples n k t
         = Inr (tabulate (b # nat n # rest) (\<lambda>idx. elem t (hd idx # drop 2 idx)))"
proof -
  have u: "unsqueeze 1 t = Inr \<lparr>shape = b # 1 # rest, data = data t\<rparr>"
    using assms by (simp add: unsqueeze_def rank_def)
  have ex: "\<not> list_ex (\<lambda>r. r < 0) ([1, n] @ replicate k 1)"
    using assms by (auto simp: list_ex_iff)
  have out: "map2 (\<lambda>r n. nat r * n) ([1, n] @ replicate k 1) (b # 1 # rest) = b # nat n # rest"
  proof -
    have "map2 (\<lambda>r n. nat r * n) (replicate k 1) rest = rest"
      using assms(2) by (induction rest arbitrary: k) auto
    then show ?thesis by simp
  qed
  have "repeat ([1, n] @ replicate k 1) \<lparr>shape = b # 1 # rest, data = data t\<rparr>
        = Inr (tabulate (b # nat n # rest) (\<lambda>idx. elem t (hd idx # drop 2 idx)))"
  proof -
    have "tabulate (b # nat n # rest)
            (\<lambda>idx. data t ! ravel (b # 1 # rest) (map2 (\<lambda>i n. i mod n) idx (b # 1 # rest)))
          = tabulate (b # nat n # rest) (\<lambda>idx. elem t (hd idx # drop 2 idx))"
    proof (rule tabulate_cong)
      fix idx assume "valid_index (b # nat n # rest) idx"
      then obtain i s "is" where idx: "idx = i # s # is" and i: "i < b"
        and v: "valid_index rest is"
        by (auto simp: valid_index_Cons)
      show "data t ! ravel (b # 1 # rest) (map2 (\<lambda>i n. i mod n) idx (b # 1 # rest))
            = elem t (hd idx # drop 2 idx)"
        using i map2_mod_valid [OF v] by (simp add: idx elem_def assms(1))
    qed
    then show ?thesis
      using ex assms(2) out by (simp add: repeat_def rank_def Let_def)
  qed
  then show ?thesis
    using u by (simp add: across_samples_def bindE_def)
qed

section \<open>Normal.log\_prob\<close>

lemma log_density_elementwise:
  assumes wf: "wf_tensor v" "wf_tensor m'" "wf_tensor lv'"
    and sh: "shape m' = shape v" "shape lv' = shape v"
  shows "\<exists>r. density_expr v m' lv' = Inr r
             \<and> shape r = shape v \<and> wf_tensor r
             \<and> (\<forall>idx. valid_index (shape v) idx \<longrightarrow>
                   elem r idx = gauss_log_density (elem v idx) (elem m' idx) (elem lv' idx))"
proof -
  define d where "d = tabulate (shape v) (\<lambda>idx. elem v idx - elem m' idx)"
  define den where "den = map_t (\<lambda>x. x + 1 / 100000) (map_t exp lv')"
  define q where "q = tabulate (shape v) (\<lambda>idx. elem (map_t (\<lambda>x. x ^ 2) d) idx / elem den idx)"
  define a where "a = map_t (\<lambda>x. x + ln (2 * pi)) lv'"
  define r where "r = tabulate (shape v) (\<lambda>idx. elem a idx + elem q idx)"
  have 1: "binop (-) v m' = Inr d"
    using sh by (simp add: binop_same d_def)
  have 2: "binop_inplace (/) (map_t (\<lambda>x. x ^ 2) d) den = Inr q"
    using sh by (simp add: binop_inplace_same d_def q_def den_def)
  have 3: "binop_inplace (+) a q = Inr r"
    using sh by (simp add: binop_inplace_same a_def q_def r_def)
  have el: "elem (map_t (\<lambda>x. x * (- 0.5)) r) idx
            = gauss_log_density (elem v idx) (elem m' idx) (elem lv' idx)"
    if v: "valid_index (shape v) idx" for idx
  proof -
    have "elem d idx = elem v idx - elem m' idx"
      using v by (simp add: d_def elem_tabulate)
    moreover have "elem den idx = exp (elem lv' idx) + 1 / 100000"
      using v wf sh by (simp add: den_def elem_map_t)
    moreover have "elem q idx = elem (map_t (\<lambda>x. x ^ 2) d) idx / elem den idx"
      using v by (simp add: q_def elem_tabulate)
    moreover have "elem (map_t (\<lambda>x. x ^ 2) d) idx = (elem d idx) ^ 2"
      using v by (simp add: elem_map_t d_def)
    moreover have "elem a idx = elem lv' idx + ln (2 * pi)"
      using v wf sh by (simp add: a_def elem_map_t)
    moreover have "elem r idx = elem a idx + elem q idx"
      using v by (simp add: r_def elem_tabulate)
    moreover have "elem (map_t (\<lambda>x. x * (- 0.5)) r) idx = elem r idx * (- 0.5)"
      using v by (simp add: elem_map_t r_def)
    ultimately show ?thesis
      by (simp add: gauss_log_density_def)
  qed
  show ?thesis
    using el by (simp add: density_expr_def 1 2 3 bindE_def den_def [symmetric] a_def [symmetric] r_def)
qed

lemma log_density_repeated:
  assumes par: "mean s = Some m" "log_var s = Some lv"
    and wf: "wf_tensor m" "wf_tensor lv" "wf_tensor v"
    and sh: "shape m = b # rest" "shape lv = b # rest" "shape v = b # n # rest"
    and k: "length rest = 1 \<or> length rest = 3"
  shows "\<exists>r. log_density s v = Inr r \<and> shape r = shape v \<and> wf_tensor r \<and>
             (\<forall>i j is. valid_index (shape v) (i # j # is) \<longrightarrow>
                elem r (i # j # is)
                = gauss_log_density (elem v (i # j # is)) (elem m (i # is)) (elem lv (i # is)))"
proof -
  define m' where "m' = tabulate (b # n # rest) (\<lambda>idx. elem m (hd idx # drop 2 idx))"
  define lv' where "lv' = tabulate (b # n # rest) (\<lambda>idx. elem lv (hd idx # drop 2 idx))"
  have am: "across_samples (int n) (length rest) m = Inr m'"
    using across_samples_eq [OF sh(1) refl, of "int n"] by (simp add: m'_def)
  have alv: "across_samples (int n) (length rest) lv = Inr lv'"
    using across_samples_eq [OF sh(2) refl, of "int n"] by (simp add: lv'_def)
  have rk: "rank v \<ge> 2" "shape v ! 1 = n" using sh by (simp_all add: rank_def)
  have params: "expand24 (int (shape v ! 1)) m lv = Inr (m', lv')"
    using k am alv rk sh by (auto simp: expand24_def rank_def bindE_def)
  have "wf_tensor m'" "wf_tensor lv'" "shape m' = shape v" "shape lv' = shape v"
    using sh by (simp_all add: m'_def lv'_def)
  from log_density_elementwise [OF wf(3) this]
  obtain r where r: "density_expr v m' lv' = Inr r"
    and shr: "shape r = shape v" "wf_tensor r"
    and el: "\<And>idx. valid_index (shape v) idx \<Longrightarrow>
                   elem r idx = gauss_log_density (elem v idx) (elem m' idx) (elem lv' idx)"
    by blast
  have ld: "log_density s v = Inr r"
    unfolding log_density_def using rk(1) params
    by (simp add: par bindE_def r)
  have "elem r (i # j # is)
        = gauss_log_density (elem v (i # j # is)) (elem m (i # is)) (elem lv (i # is))"
    if "valid_index (shape v) (i # j # is)" for i j "is"
    using el [OF that] that sh by (simp add: m'_def lv'_def elem_tabulate)
  with ld shr show ?thesis by blast
qed

lemma log_density_same_shape:
  assumes par: "mean s = Some m" "log_var s = Some lv"
    and wf: "wf_tensor m" "wf_tensor lv" "wf_tensor v"
    and sh: "shape m = shape v" "shape lv = shape v"
    and rk: "rank m \<noteq> 2" "rank m \<noteq> 4" "2 \<le> rank v"
  shows "\<exists>r. log_density s v = Inr r \<and> shape r = shape v \<and> wf_tensor r \<and>
             (\<forall>idx. valid_index (shape v) idx \<longrightarrow>
                elem r idx = gauss_log_density (elem v idx) (elem m idx) (elem lv idx))"
proof -
  from log_density_elementwise [OF wf(3) wf(1) wf(2) sh]
  obtain r where r: "density_expr v m lv = Inr r"
    and rest: "shape r = shape v" "wf_tensor r"
       "\<forall>idx. valid_index (shape v) idx \<longrightarrow>
                   elem r idx = gauss_log_density (elem v idx) (elem m idx) (elem lv idx)"
    by blast
  have "log_density s v = Inr r"
    unfolding log_density_def using rk
    by (simp add: par bindE_def r expand24_def)
  with rest show ?thesis by blast
qed

text \<open>
  C3, as the code has it. When mean and log variance have one shape \<open>[B, F...]\<close> of
  rank 2 or 4 and the value has the shape \<open>[B, S, F...]\<close>, \<open>log_prob\<close> returns
  a tensor of the value's shape whose every element is the Gaussian log density of
  the value's element under the parameters of its batch entry and feature position:
  the parameters are repeated along the sample axis. When the parameters have any
  other rank and already the shape of the value, the same holds element by element
  with nothing repeated. The object is left as it is.
\<close>

theorem log_prob_density:
  assumes par: "mean s = Some m" "log_var s = Some lv"
    and wf: "wf_tensor m" "wf_tensor lv" "wf_tensor v"
    and lv: "shape lv = shape m"
    and sh: "((rank m = 2 \<or> rank m = 4) \<and> shape m = b # rest \<and> shape v = b # n # rest)
             \<or> (rank m \<noteq> 2 \<and> rank m \<noteq> 4 \<and> shape v = shape m \<and> 2 \<le> rank v)"
  shows "\<exists>r. log_prob s (Val v) noise = (Inr r, s) \<and> shape r = shape v \<and>
             (\<forall>idx. valid_index (shape v) idx \<longrightarrow>
                elem r idx = gauss_log_density (elem v idx)
                               (elem m (param_index m idx)) (elem lv (param_index m idx)))"
proof -
  from sh consider
      (repeated) "rank m = 2 \<or> rank m = 4" "shape m = b # rest" "shape v = b # n # rest"
    | (same) "rank m \<noteq> 2" "rank m \<noteq> 4" "2 \<le> rank v" "shape v = shape m"
    by blast
  then show ?thesis
  proof cases
    case repeated
    note rk = repeated(1) and shm = repeated(2) and shv = repeated(3)
    from rk shm have k: "length rest = 1 \<or> length rest = 3"
      by (auto simp: rank_def)
    from log_density_repeated [OF par wf shm _ shv k] lv shm
    obtain r where r: "log_density s v = Inr r" "shape r = shape v"
      and el: "\<And>i j is. valid_index (shape v) (i # j # is) \<Longrightarrow>
                elem r (i # j # is)
                = gauss_log_density (elem v (i # j # is)) (elem m (i # is)) (elem lv (i # is))"
      by auto
    have "elem r idx = gauss_log_density (elem v idx)
                               (elem m (param_index m idx)) (elem lv (param_index m idx))"
      if v: "valid_index (shape v) idx" for idx
    proof -
      from v shv obtain i j "is" where "idx = i # j # is"
        by (auto simp: valid_index_Cons)
      then show ?thesis using el v rk by (auto simp: param_index_def)
    qed
    then show ?thesis using r by (simp add: log_prob_def)
  next
    case same
    note rk = same(1,2,3) and shv = same(4)
    from log_density_same_shape [OF par wf _ _ rk] lv shv
    obtain r where r: "log_density s v = Inr r" "shape r = shape v"
      and el: "\<forall>idx. valid_index (shape v) idx \<longrightarrow>
                elem r idx = gauss_log_density (elem v idx) (elem m idx) (elem lv idx)"
      by auto
    then show ?thesis using rk by (simp add: log_prob_def param_index_def)
  qed
qed

theorem log_prob_density_witness:
  "\<exists>r. log_prob std_normal (Val two_draws) zero_noise = (Inr r, std_normal)
       \<and> shape r = [1, 2, 1]
       \<and> elem r [0, 1, 0] = gauss_log_density 1 0 0"
proof -
  have par: "mean std_normal = Some (t11 0)" "log_var std_normal = Some (t11 0)"
    by (simp_all add: std_normal_def init_normal_def)
  have wf: "wf_tensor (t11 0)" "wf_tensor two_draws"
    by (simp_all add: wf_tensor_def t11_def two_draws_def)
  have sh: "((rank (t11 0) = 2 \<or> rank (t11 0) = 4) \<and> shape (t11 0) = 1 # [1]
              \<and> shape two_draws = 1 # 2 # [1])
            \<or> (rank (t11 0) \<noteq> 2 \<and> rank (t11 0) \<noteq> 4 \<and> shape two_draws = shape (t11 0)
                \<and> 2 \<le> rank two_draws)"
    by (simp add: rank_def t11_def two_draws_def)
  from log_prob_density [OF par wf(1) wf(1) wf(2) refl sh, of zero_noise]
  obtain r where r: "log_prob std_normal (Val two_draws) zero_noise = (Inr r, std_normal)"
      "shape r = shape two_draws"
    and el: "\<And>idx. valid_index (shape two_draws) idx \<Longrightarrow>
                elem r idx = gauss_log_density (elem two_draws idx)
                   (elem (t11 0) (param_index (t11 0) idx)) (elem (t11 0) (param_index (t11 0) idx))"
    by blast
  have "valid_index (shape two_draws) [0, 1, 0]"
    by (simp add: valid_index_def two_draws_def)
  from el [OF this] have "elem r [0, 1, 0] = gauss_log_density 1 0 0"
    by (simp add: elem_def two_draws_def t11_def param_index_def rank_def)
  with r show ?thesis by (auto simp: two_draws_def)
qed

text \<open>
  C3 as stated fails: parameters of shape \<open>[batch] = [2]\<close> have no sample axis, and
  for a value of shape \<open>[batch, sample] = [2, 3]\<close> nothing is repeated (the rank is
  neither 2 nor 4); \<open>value.sub(mean)\<close> then sets the two means against the three
  samples and raises.
\<close>

theorem log_prob_vector_parameters_raise:
  "fst (log_prob vec_normal (Val value23) zero_noise) = Inl RuntimeError"
  by (simp add: log_prob_def log_density_def density_expr_def expand24_def vec_normal_def
      value23_def init_normal_def zeros_def tensor_eval)

section \<open>Normal.sample on parameters of rank 2 and rank 4\<close>

text \<open>
  For parameters of rank 2, shape \<open>[B, K]\<close>, a fresh draw is \<open>mean + noise * std\<close>
  with \<open>std = exp(0.5 * log_var)\<close>, both repeated along a sample axis of size
  \<open>n_samples\<close> at position 1.
\<close>

lemma sample_rank2:
  assumes par: "mean s = Some m" "log_var s = Some lv"
    and wf: "wf_tensor m" "wf_tensor lv"
    and sh: "shape m = [b, k]" "shape lv = [b, k]"
    and n: "0 \<le> n"
  shows "\<exists>r. sample s n True noise = (Inr r, s\<lparr>sample_cache := Some r\<rparr>)
             \<and> shape r = [b, nat n, k]
             \<and> (\<forall>i j l. i < b \<and> j < nat n \<and> l < k \<longrightarrow>
                   elem r [i, j, l]
                   = elem m [i, l] + noise (ravel [b, nat n, k] [i, j, l]) * exp (0.5 * elem lv [i, l]))"
proof -
  define std where "std = std_of lv"
  define m' where "m' = tabulate [b, nat n, k] (\<lambda>idx. elem m (hd idx # drop 2 idx))"
  define std' where "std' = tabulate [b, nat n, k] (\<lambda>idx. elem std (hd idx # drop 2 idx))"
  define z where "z = normal_noise noise [b, nat n, k]"
  define r1 where "r1 = tabulate [b, nat n, k] (\<lambda>idx. elem z idx * elem std' idx)"
  define r where "r = tabulate [b, nat n, k] (\<lambda>idx. elem r1 idx + elem m' idx)"
  have am: "across_samples n 1 m = Inr m'"
    using across_samples_eq [OF sh(1) _ n, of 1] by (simp add: m'_def)
  have "shape std = [b, k]" by (simp add: std_def std_of_def sh)
  then have astd: "across_samples n 1 std = Inr std'"
    using across_samples_eq [OF _ _ n, of std b "[k]" 1] by (simp add: std'_def)
  have e: "expand2 n m std = Inr (m', std')"
    using sh am astd by (simp add: expand2_def rank_def bindE_def)
  have 1: "binop_inplace (*) (normal_noise noise (shape m')) std' = Inr r1"
    by (simp add: binop_inplace_same m'_def std'_def normal_noise_def r1_def z_def)
  have 2: "binop_inplace (+) r1 m' = Inr r"
    by (simp add: binop_inplace_same r1_def m'_def r_def)
  have "reparameterize noise m' std' = Inr r"
    by (simp add: reparameterize_def 1 2 bindE_def)
  then have s: "sample s n True noise = (Inr r, s\<lparr>sample_cache := Some r\<rparr>)"
    using e by (simp add: sample_def par std_def bindE_def)
  have el: "elem r [i, j, l]
            = elem m [i, l] + noise (ravel [b, nat n, k] [i, j, l]) * exp (0.5 * elem lv [i, l])"
    if "i < b" "j < nat n" "l < k" for i j l
  proof -
    have v: "valid_index [b, nat n, k] [i, j, l]" "valid_index (shape lv) [i, l]"
      using that sh by (simp_all add: valid_index_def)
    have "ravel [b, nat n, k] [i, j, l] < prod_list [b, nat n, k]"
      using v(1) by (rule ravel_less)
    then have "elem z [i, j, l] = noise (ravel [b, nat n, k] [i, j, l])"
      by (simp add: z_def normal_noise_def elem_def del: ravel.simps prod_list.Cons)
    moreover have "elem std [i, l] = exp (0.5 * elem lv [i, l])"
      using v(2) wf by (simp add: std_def std_of_def elem_map_t mult.commute)
    ultimately show ?thesis
      using v(1) by (simp add: r_def r1_def m'_def std'_def elem_tabulate del: ravel.simps)
  qed
  show ?thesis using s el by (simp add: r_def)
qed

text \<open>
  C5 asks for the sample axis for parameters of any rank. \<open>sample\<close> tests for
  rank 2 only, whereas \<open>log_prob\<close> also repeats parameters of rank 4: for
  parameters of shape \<open>[1, 1, 1, 1]\<close> and \<open>n_samples = 2\<close> the draw has the shape
  of the parameters, \<open>[1, 1, 1, 1]\<close>, and no sample axis of size 2.
\<close>

theorem sample_conv_has_no_sample_axis:
  "sample conv_normal 2 True zero_noise
     = (Inr (t1111 0), conv_normal\<lparr>sample_cache := Some (t1111 0)\<rparr>)"
  by (simp add: sample_def expand2_def std_of_def reparameterize_def conv_normal_def
      init_normal_def t1111_def zero_noise_def tensor_eval)

section \<open>Unset parameters\<close>

lemma normal_inv_init: "normal_inv (init_normal m lv n)"
  by (simp add: normal_inv_def init_normal_def)

lemma normal_inv_sample:
  "normal_inv s \<Longrightarrow> normal_inv (snd (sample s n r noise))"
  by (auto simp: normal_inv_def sample_def split: option.splits sum.splits)

lemma normal_inv_log_prob:
  "normal_inv s \<Longrightarrow> normal_inv (snd (log_prob s value noise))"
  using normal_inv_sample [of s 1 False noise]
  by (auto simp: log_prob_def split: value_arg.splits prod.splits sum.splits)

lemma normal_inv_re_init_mean:
  "normal_inv s \<Longrightarrow> normal_inv (snd (re_init_mean s value b sd))"
  by (auto simp: normal_inv_def re_init_mean_def split: sum.splits)

lemma normal_inv_re_init_log_var:
  "normal_inv s \<Longrightarrow> normal_inv (snd (re_init_log_var s value b sd))"
  by (auto simp: normal_inv_def re_init_log_var_def split: sum.splits)

lemma normal_inv_re_init:
  "normal_inv s \<Longrightarrow> normal_inv (snd (re_init s mv lvv b sd))"
  using normal_inv_re_init_mean [of s mv b sd]
    normal_inv_re_init_log_var [of "snd (re_init_mean s mv b sd)" lvv b sd]
  by (auto simp: re_init_def split: prod.splits sum.splits)

text \<open>
  C9. On an object whose mean or log variance is unset, \<open>sample\<close> (with any
  arguments) and \<open>log_prob(None)\<close> raise the AttributeError of Python's \<open>None\<close>
  before anything is computed, and \<open>log_prob\<close> at a tensor raises the assertion
  \<open>Mean or log variance are None.\<close>; no call returns a value, and the object is
  left as it is. The objects are those the class produces (\<open>normal_inv\<close>), which
  have no cached sample while a parameter is unset.
\<close>

theorem unset_parameters_fail:
  assumes "normal_inv s" and "mean s = None \<or> log_var s = None"
  shows "sample s n r noise = (Inl AttributeError, s)
       \<and> log_prob s NoneV noise = (Inl AttributeError, s)
       \<and> log_prob s (Val v) noise = (Inl (AssertionError ''Mean or log variance are None.''), s)"
proof -
  from assms have c: "sample_cache s = None"
    by (auto simp: normal_inv_def)
  have s: "sample s n r noise = (Inl AttributeError, s)" for n r
    using assms(2) c by (auto simp: sample_def split: option.splits)
  have "log_density s v = Inl (AssertionError ''Mean or log variance are None.'')"
    using assms(2) by (auto simp: log_density_def split: option.splits)
  then show ?thesis
    using s by (simp add: log_prob_def)
qed

theorem unset_parameters_fail_witness:
  "normal_inv unset_normal \<and> (mean unset_normal = None \<or> log_var unset_normal = None)
   \<and> sample unset_normal 1 False zero_noise = (Inl AttributeError, unset_normal)
   \<and> log_prob unset_normal NoneV zero_noise = (Inl AttributeError, unset_normal)
   \<and> log_prob unset_normal (Val (t11 0)) zero_noise
       = (Inl (AssertionError ''Mean or log variance are None.''), unset_normal)"
proof -
  have i: "normal_inv unset_normal"
    by (simp add: unset_normal_def normal_inv_def init_normal_def)
  have u: "mean unset_normal = None \<or> log_var unset_normal = None"
    by (simp add: unset_normal_def init_normal_def)
  from unset_parameters_fail [OF i u, of 1 False zero_noise "t11 0"] i u
  show ?thesis by simp
qed

section \<open>Normal.re\_init\<close>

lemma reset_param_eq:
  assumes "resettable batch_size p"
  shows "bindE (case shape p of
              [] \<Rightarrow> Inl IndexError
            | n # _ \<Rightarrow>
                if int n \<noteq> batch_size
                then bindE (first_slice p) (repeat [batch_size, 1])
                else Inr p) (\<lambda>p.
     if sample_dim then unsqueeze 1 p else Inr p)
   = Inr (with_sample_axis sample_dim (to_batch batch_size p))"
proof (cases "int (hd (shape p)) = batch_size")
  case True
  with assms obtain n ns where "shape p = n # ns" "int n = batch_size"
    by (cases "shape p") (auto simp: resettable_def rank_def)
  then show ?thesis
    by (simp add: bindE_def to_batch_def with_sample_axis_def unsqueeze_def rank_def)
next
  case False
  with assms obtain b k where sh: "shape p = [b, k]" and b: "1 \<le> b" "int b \<noteq> batch_size"
    and bs: "0 \<le> batch_size"
    by (cases "shape p"; cases "tl (shape p)") (auto simp: resettable_def rank_def)
  have fs: "first_slice p = Inr \<lparr>shape = [1, k], data = take k (data p)\<rparr>"
    using sh b by (simp add: first_slice_def min_def)
  have "tabulate [nat batch_size, k]
          (\<lambda>idx. take k (data p) ! ravel [1, k] (map2 (\<lambda>i n. i mod n) idx [1, k]))
        = tabulate [nat batch_size, k] (\<lambda>idx. elem p [0, idx ! 1])"
  proof (rule tabulate_cong)
    fix idx assume "valid_index [nat batch_size, k] idx"
    then obtain i l where "idx = [i, l]" "l < k"
      by (auto simp: valid_index_Cons)
    then show "take k (data p) ! ravel [1, k] (map2 (\<lambda>i n. i mod n) idx [1, k])
               = elem p [0, idx ! 1]"
      by (simp add: elem_def sh)
  qed
  then have "repeat [batch_size, 1] \<lparr>shape = [1, k], data = take k (data p)\<rparr>
        = Inr (to_batch batch_size p)"
    using bs b sh by (simp add: repeat_def rank_def to_batch_def)
  then show ?thesis
    using sh b fs
    by (simp add: bindE_def with_sample_axis_def unsqueeze_def rank_def to_batch_def)
qed

lemma reset_param_value:
  assumes "resettable batch_size (case value of Some v \<Rightarrow> v | None \<Rightarrow> as_row reset_value)"
  shows "reset_param value reset_value batch_size sample_dim
         = Inr (reset_to value reset_value batch_size sample_dim)"
proof -
  have "(case value of Some v \<Rightarrow> Inr v | None \<Rightarrow> unsqueeze 0 reset_value)
        = Inr (case value of Some v \<Rightarrow> v | None \<Rightarrow> as_row reset_value)"
    by (simp add: unsqueeze_def as_row_def split: option.splits)
  then show ?thesis
    using reset_param_eq [OF assms, of sample_dim]
    by (simp add: reset_param_def reset_to_def bindE_def)
qed

text \<open>Whatever the arguments: when \<open>re_init\<close> returns, the cached sample is gone.\<close>

lemma re_init_returns_clears_cache:
  "re_init s mean_value log_var_value batch_size sample_dim = (Inr u, s') \<Longrightarrow>
   sample_cache s' = None"
  by (auto simp: re_init_def re_init_mean_def re_init_log_var_def split: sum.splits prod.splits)

text \<open>
  C7, as the code has it. For values that are matrices with at least one row, or
  tensors that already have \<open>batch_size\<close> entries along axis 0, or \<open>None\<close> (then
  the reset vector as one row), and \<open>batch_size\<close> not negative: \<open>re_init\<close> returns,
  mean and log variance are the value when its number of rows is \<open>batch_size\<close> and
  its first row repeated \<open>batch_size\<close> times otherwise, with a sample axis inserted
  at position 1 when \<open>sample_dim\<close> is set, and the cached sample is \<open>None\<close>.
\<close>

theorem re_init_resets:
  assumes "resettable batch_size
             (case mean_value of Some v \<Rightarrow> v | None \<Rightarrow> as_row (mean_reset_value s))"
    and "resettable batch_size
             (case log_var_value of Some v \<Rightarrow> v | None \<Rightarrow> as_row (log_var_reset_value s))"
  shows "re_init s mean_value log_var_value batch_size sample_dim
         = (Inr (),
            s\<lparr>mean := Some (reset_to mean_value (mean_reset_value s) batch_size sample_dim),
              log_var := Some (reset_to log_var_value (log_var_reset_value s) batch_size sample_dim),
              sample_cache := None\<rparr>)"
  using reset_param_value [OF assms(1), of sample_dim] reset_param_value [OF assms(2), of sample_dim]
  by (simp add: re_init_def re_init_mean_def re_init_log_var_def)

theorem re_init_resets_witness:
  "re_init cached_normal (Some t21) None 3 True
   = (Inr (),
      cached_normal\<lparr>mean := Some \<lparr>shape = [3, 1, 1], data = [3, 3, 3]\<rparr>,
        log_var := Some \<lparr>shape = [3, 1, 1], data = [0, 0, 0]\<rparr>,
        sample_cache := None\<rparr>)"
proof -
  have 1: "resettable 3 (case Some t21 of Some v \<Rightarrow> v
                          | None \<Rightarrow> as_row (mean_reset_value cached_normal))"
    by (simp add: resettable_def t21_def wf_tensor_def rank_def)
  have 2: "resettable 3 (case None of Some v \<Rightarrow> v
                          | None \<Rightarrow> as_row (log_var_reset_value cached_normal))"
    by (simp add: resettable_def cached_normal_def std_normal_def init_normal_def zeros_def
        as_row_def wf_tensor_def rank_def)
  have 3: "reset_to (Some t21) (mean_reset_value cached_normal) 3 True
           = \<lparr>shape = [3, 1, 1], data = [3, 3, 3]\<rparr>"
    by (simp add: reset_to_def to_batch_def with_sample_axis_def t21_def tabulate_def elem_def
        upt_conv_Cons)
  have 4: "reset_to None (log_var_reset_value cached_normal) 3 True
           = \<lparr>shape = [3, 1, 1], data = [0, 0, 0]\<rparr>"
    by (simp add: reset_to_def to_batch_def with_sample_axis_def as_row_def cached_normal_def
        std_normal_def init_normal_def zeros_def tabulate_def elem_def upt_conv_Cons)
  from re_init_resets [OF 1 2, of True] show ?thesis
    by (simp only: 3 4)
qed

text \<open>
  C7 as stated fails for some arguments: a value of rank 3 whose batch size differs
  from \<open>batch_size\<close> makes \<open>mean[:1].repeat(batch_size, 1)\<close> raise (two repeat counts
  for three axes), and the cached sample stays.
\<close>

theorem re_init_raises_and_keeps_cache:
  "re_init cached_normal (Some t211) None 1 False = (Inl RuntimeError, cached_normal)
   \<and> sample_cache cached_normal = Some two_draws"
  by (simp add: re_init_def re_init_mean_def reset_param_def cached_normal_def t211_def
      tensor_eval)

section \<open>The error function\<close>

lemma erf_term_odd:
  "(\<lambda>n. erf_coeff n * x ^ n)
   = (\<lambda>n. if even n then 0
           else (2 / sqrt pi * (- 1) ^ ((n - 1) div 2)
                  / (real (2 * ((n - 1) div 2) + 1) * fact ((n - 1) div 2)))
                * x ^ (2 * ((n - 1) div 2) + 1))"
proof
  fix n
  show "erf_coeff n * x ^ n
        = (if even n then 0
           else (2 / sqrt pi * (- 1) ^ ((n - 1) div 2)
                  / (real (2 * ((n - 1) div 2) + 1) * fact ((n - 1) div 2)))
                * x ^ (2 * ((n - 1) div 2) + 1))"
  proof (cases "even n")
    case True
    then show ?thesis by (simp add: erf_coeff_def)
  next
    case False
    then obtain k where n: "n = 2 * k + 1" by (auto elim: oddE)
    then show ?thesis by (simp add: erf_coeff_def)
  qed
qed

lemma erf_odd_terms_summable:
  "summable (\<lambda>k. (2 / sqrt pi * (- 1) ^ k / (real (2 * k + 1) * fact k)) * x ^ (2 * k + 1))"
    (is "summable ?g")
proof (rule summable_comparison_test')
  show "summable (\<lambda>k. (2 / sqrt pi * \<bar>x\<bar>) * ((x\<^sup>2) ^ k /\<^sub>R fact k))"
    by (intro summable_mult summable_exp_generic)
next
  fix k :: nat
  have "norm (?g k) = 2 / sqrt pi * \<bar>x\<bar> ^ (2 * k + 1) / (real (2 * k + 1) * fact k)"
    by (simp add: abs_mult power_abs del: power_Suc)
  also have "\<dots> \<le> 2 / sqrt pi * \<bar>x\<bar> ^ (2 * k + 1) / (1 * fact k)"
    by (intro divide_left_mono mult_right_mono) (auto simp: )
  also have "\<dots> = (2 / sqrt pi * \<bar>x\<bar>) * ((x\<^sup>2) ^ k /\<^sub>R fact k)"
  proof -
    have "\<bar>x\<bar> ^ (2 * k) = (x\<^sup>2) ^ k"
      by (simp add: power_mult)
    then show ?thesis by (simp add: field_simps)
  qed
  finally show "norm (?g k) \<le> (2 / sqrt pi * \<bar>x\<bar>) * ((x\<^sup>2) ^ k /\<^sub>R fact k)" .
qed

lemma erf_summable: "summable (\<lambda>n. erf_coeff n * x ^ n)"
proof -
  from erf_odd_terms_summable [of x] obtain s where
    "(\<lambda>k. (2 / sqrt pi * (- 1) ^ k / (real (2 * k + 1) * fact k)) * x ^ (2 * k + 1)) sums s"
    by (auto simp: summable_def)
  from sums_if' [OF this] show ?thesis
    unfolding erf_term_odd by (rule sums_summable)
qed

lemma diffs_erf_coeff:
  "diffs erf_coeff n = (if even n then 2 / sqrt pi * ((- 1) ^ (n div 2) / fact (n div 2)) else 0)"
proof (cases "even n")
  case True
  then obtain k where "n = 2 * k" by (auto elim: evenE)
  then show ?thesis
    by (simp add: diffs_def erf_coeff_def field_simps del: of_nat_Suc)
next
  case False
  then show ?thesis by (simp add: diffs_def erf_coeff_def)
qed

lemma erf_deriv_sum: "(\<lambda>n. diffs erf_coeff n * x ^ n) sums (2 / sqrt pi * exp (- x\<^sup>2))"
proof -
  have "(\<lambda>k. (- x\<^sup>2) ^ k /\<^sub>R fact k) sums exp (- x\<^sup>2)"
    by (rule exp_converges)
  then have f: "(\<lambda>k. 2 / sqrt pi * ((- x\<^sup>2) ^ k /\<^sub>R fact k)) sums (2 / sqrt pi * exp (- x\<^sup>2))"
    by (rule sums_mult)
  have z: "(\<lambda>k::nat. 0::real) sums 0" by simp
  have "(\<lambda>n. if even n then 2 / sqrt pi * ((- x\<^sup>2) ^ (n div 2) /\<^sub>R fact (n div 2)) else 0)
        sums (0 + 2 / sqrt pi * exp (- x\<^sup>2))"
    using sums_if [OF z f] by simp
  moreover have "(\<lambda>n. if even n then 2 / sqrt pi * ((- x\<^sup>2) ^ (n div 2) /\<^sub>R fact (n div 2)) else 0)
        = (\<lambda>n. diffs erf_coeff n * x ^ n)"
  proof
    fix n
    show "(if even n then 2 / sqrt pi * ((- x\<^sup>2) ^ (n div 2) /\<^sub>R fact (n div 2)) else 0)
          = diffs erf_coeff n * x ^ n"
    proof (cases "even n")
      case True
      then obtain k where n: "n = 2 * k" by (auto elim: evenE)
      have "(- x\<^sup>2) ^ k = (- 1) ^ k * x ^ (2 * k)"
        by (simp add: power_minus [of "x\<^sup>2"] power_mult)
      then show ?thesis
        by (simp add: diffs_erf_coeff n divide_inverse mult_ac)
    next
      case False
      then show ?thesis by (simp add: diffs_erf_coeff)
    qed
  qed
  ultimately show ?thesis by simp
qed

lemma erf_has_derivative: "DERIV erf x :> 2 / sqrt pi * exp (- x\<^sup>2)"
proof -
  have "DERIV (\<lambda>x. \<Sum>n. erf_coeff n * x ^ n) x :> (\<Sum>n. diffs erf_coeff n * x ^ n)"
    by (rule termdiffs_strong_converges_everywhere) (rule erf_summable)
  moreover have "(\<Sum>n. diffs erf_coeff n * x ^ n) = 2 / sqrt pi * exp (- x\<^sup>2)"
    using erf_deriv_sum by (rule sums_unique [symmetric])
  moreover have "erf = (\<lambda>x. \<Sum>n. erf_coeff n * x ^ n)"
    by (rule ext) (simp add: erf_def)
  ultimately show ?thesis by simp
qed

lemma erf_mono: "x \<le> y \<Longrightarrow> erf x \<le> erf y"
proof (cases "x = y")
  case True
  then show ?thesis by simp
next
  case False
  assume "x \<le> y"
  with False have "x < y" by simp
  then have "erf x < erf y"
  proof (rule DERIV_pos_imp_increasing)
    fix z
    have "0 < 2 / sqrt pi * exp (- z\<^sup>2)" by simp
    with erf_has_derivative [of z] show "\<exists>d. DERIV erf z :> d \<and> 0 < d" by blast
  qed
  then show ?thesis by simp
qed

section \<open>Broadcasting reads valid positions\<close>

lemma broadcast_rev_length:
  "broadcast_rev xs ys = Some zs \<Longrightarrow> length zs = max (length xs) (length ys)"
  by (induction xs ys arbitrary: zs rule: broadcast_rev.induct) (auto split: if_splits)

lemma bc_rev_valid_self:
  "list_all2 (\<lambda>i n. i < n) js ys \<Longrightarrow>
   list_all2 (\<lambda>i n. i < n) (map2 (\<lambda>i n. if n = 1 then 0 else i) js ys) (ys :: nat list)"
  by (induction js ys rule: list_all2_induct) auto

lemma broadcast_rev_valid:
  "broadcast_rev xs ys = Some zs \<Longrightarrow> list_all2 (\<lambda>i n. i < n) js zs \<Longrightarrow>
   list_all2 (\<lambda>i n. i < n) (map2 (\<lambda>i n. if n = 1 then 0 else i) (take (length xs) js) xs) xs
   \<and> list_all2 (\<lambda>i n. i < n) (map2 (\<lambda>i n. if n = 1 then 0 else i) (take (length ys) js) ys) ys"
proof (induction xs ys arbitrary: zs js rule: broadcast_rev.induct)
  case (1 ys)
  then show ?case
    using bc_rev_valid_self [of js ys] by (simp add: list_all2_lengthD)
next
  case (2 v va)
  then show ?case
    using bc_rev_valid_self [of js "v # va"] by (simp add: list_all2_lengthD)
next
  case (3 x xs y ys)
  from "3.prems"(1) obtain z zs' where zs: "zs = z # zs'" and r: "broadcast_rev xs ys = Some zs'"
    and z: "(x = y \<or> y = 1) \<and> z = x \<or> x = 1 \<and> z = y"
    by (auto split: if_splits)
  from "3.prems"(2) zs obtain j js' where js: "js = j # js'" and j: "j < z"
    and js': "list_all2 (\<lambda>i n. i < n) js' zs'"
    by (auto simp: list_all2_Cons2)
  have rec: "list_all2 (\<lambda>i n. i < n) (map2 (\<lambda>i n. if n = 1 then 0 else i) (take (length xs) js') xs) xs
   \<and> list_all2 (\<lambda>i n. i < n) (map2 (\<lambda>i n. if n = 1 then 0 else i) (take (length ys) js') ys) ys"
  proof (cases "x = y \<or> y = 1")
    case True
    then show ?thesis using "3.IH"(1) [OF True r js'] by simp
  next
    case False
    with z have "x = 1" by auto
    then show ?thesis using "3.IH"(2) [OF False _ r js'] by simp
  qed
  with z j show ?case by (auto simp: js)
qed

lemma bc_index_rev:
  assumes "length sh \<le> length idx"
  shows "rev (bc_index sh idx)
         = map2 (\<lambda>i n. if n = 1 then 0 else i) (take (length sh) (rev idx)) (rev sh)"
proof -
  have "length (drop (length idx - length sh) idx) = length sh"
    using assms by simp
  then have "rev (bc_index sh idx)
        = map2 (\<lambda>i n. if n = 1 then 0 else i) (rev (drop (length idx - length sh) idx)) (rev sh)"
    by (simp add: bc_index_def rev_map zip_rev)
  also have "rev (drop (length idx - length sh) idx) = take (length sh) (rev idx)"
    using assms by (simp add: rev_drop)
  finally show ?thesis .
qed

lemma broadcast_valid:
  assumes "broadcast_shapes a b = Some c" and "valid_index c idx"
  shows "valid_index a (bc_index a idx)" and "valid_index b (bc_index b idx)"
proof -
  from assms(1) obtain rc where rc: "broadcast_rev (rev a) (rev b) = Some rc" and c: "c = rev rc"
    by (auto simp: broadcast_shapes_def)
  have len: "length idx = length c" using assms(2) by (rule valid_index_length)
  have "length c = max (length a) (length b)"
    using broadcast_rev_length [OF rc] c by simp
  then have la: "length a \<le> length idx" and lb: "length b \<le> length idx"
    using len by simp_all
  have "list_all2 (\<lambda>i n. i < n) (rev idx) rc"
    using assms(2) c by (simp add: valid_index_def list_all2_rev1)
  from broadcast_rev_valid [OF rc this]
  have "list_all2 (\<lambda>i n. i < n) (rev (bc_index a idx)) (rev a)"
    and "list_all2 (\<lambda>i n. i < n) (rev (bc_index b idx)) (rev b)"
    using la lb by (simp_all add: bc_index_rev)
  then show "valid_index a (bc_index a idx)" and "valid_index b (bc_index b idx)"
    by (simp_all add: valid_index_def)
qed

lemma elem_in_data:
  "wf_tensor t \<Longrightarrow> valid_index (shape t) idx \<Longrightarrow> elem t idx \<in> set (data t)"
  using ravel_less [of "shape t" idx] by (simp add: elem_def wf_tensor_def)

lemma repeat_index_valid:
  "length reps = length sh \<Longrightarrow>
   list_all2 (\<lambda>i n. i < n) idx (map2 (\<lambda>r n. nat r * n) reps sh) \<Longrightarrow>
   list_all2 (\<lambda>i n. i < n) (map2 (\<lambda>i n. i mod n) idx sh) sh"
proof (induction sh arbitrary: reps idx)
  case Nil
  then show ?case by simp
next
  case (Cons n ns)
  from Cons.prems(1) obtain r rs where reps: "reps = r # rs" and l: "length rs = length ns"
    by (cases reps) auto
  from Cons.prems(2) obtain i "is" where idx: "idx = i # is" and i: "i < nat r * n"
    and r: "list_all2 (\<lambda>i n. i < n) is (map2 (\<lambda>r n. nat r * n) rs ns)"
    by (auto simp: reps list_all2_Cons2)
  from i have "0 < n" by (cases n) auto
  then show ?case using Cons.IH [OF l r] by (simp add: idx)
qed

lemma repeat_data_subset:
  assumes "wf_tensor t" and "repeat reps t = Inr r"
  shows "wf_tensor r" and "set (data r) \<subseteq> set (data t)"
proof -
  define sh where "sh = replicate (length reps - rank t) 1 @ shape t"
  define out where "out = map2 (\<lambda>r n. nat r * n) reps sh"
  from assms(2) have le: "rank t \<le> length reps"
    and r: "r = tabulate out (\<lambda>idx. data t ! ravel sh (map2 (\<lambda>i n. i mod n) idx sh))"
    by (auto simp: repeat_def Let_def sh_def out_def split: if_splits)
  show "wf_tensor r" by (simp add: r)
  have len: "length reps = length sh"
    using le by (simp add: sh_def rank_def)
  have prod: "prod_list sh = length (data t)"
    using assms(1) by (simp add: sh_def wf_tensor_def)
  show "set (data r) \<subseteq> set (data t)"
  proof
    fix x assume "x \<in> set (data r)"
    then obtain j where j: "j < prod_list out"
      and x: "x = data t ! ravel sh (map2 (\<lambda>i n. i mod n) (unravel out j) sh)"
      by (auto simp: r tabulate_def)
    have "valid_index out (unravel out j)" using j by (rule unravel_valid)
    then have "valid_index sh (map2 (\<lambda>i n. i mod n) (unravel out j) sh)"
      using repeat_index_valid [OF len] by (simp add: valid_index_def out_def)
    then have "ravel sh (map2 (\<lambda>i n. i mod n) (unravel out j) sh) < length (data t)"
      using ravel_less prod by metis
    then show "x \<in> set (data t)" by (simp add: x)
  qed
qed

lemma across_samples_data:
  assumes "wf_tensor t" and "across_samples n k t = Inr r"
  shows "wf_tensor r" and "set (data r) \<subseteq> set (data t)"
proof -
  from assms(2) obtain u where u: "unsqueeze 1 t = Inr u"
    and r: "repeat ([1, n] @ replicate k 1) u = Inr r"
    by (auto simp: across_samples_def bindE_def split: sum.splits)
  from u have "data u = data t" "wf_tensor u"
    using assms(1) by (auto simp: unsqueeze_def wf_tensor_def split: if_splits)
      (metis append_take_drop_id prod_list.append)
  with repeat_data_subset [OF _ r] show "wf_tensor r" and "set (data r) \<subseteq> set (data t)"
    by simp_all
qed

lemma expand2_data:
  assumes "wf_tensor m" "wf_tensor x" and "expand2 n m x = Inr (m', x')"
  shows "wf_tensor m'" and "wf_tensor x'" and "set (data x') \<subseteq> set (data x)"
  using assms across_samples_data [of m n 1 m'] across_samples_data [of x n 1 x']
  by (auto simp: expand2_def bindE_def split: if_splits sum.splits)

section \<open>Normal.cdf\<close>

lemma binop_elem:
  assumes "binop f a b = Inr c"
  shows "broadcast_shapes (shape a) (shape b) = Some (shape c)"
    and "wf_tensor c"
    and "valid_index (shape c) idx \<Longrightarrow> elem c idx = f (bc_at a idx) (bc_at b idx)"
  using assms by (auto simp: binop_def elem_tabulate split: option.splits)

lemma cdf_expr_mono:
  assumes wf: "wf_tensor v1" "wf_tensor v2" "wf_tensor std'"
    and sh: "shape v1 = shape v2"
    and pos: "\<forall>x \<in> set (data std'). 0 < x"
    and le: "\<forall>idx. valid_index (shape v1) idx \<longrightarrow> elem v1 idx \<le> elem v2 idx"
    and c1: "cdf_expr v1 m' std' = Inr c1"
  shows "\<exists>c2. cdf_expr v2 m' std' = Inr c2 \<and> shape c2 = shape c1
              \<and> (\<forall>idx. valid_index (shape c1) idx \<longrightarrow> elem c1 idx \<le> elem c2 idx)"
proof -
  define den where "den = map_t (\<lambda>x. x + 1 / 100000) (map_t (\<lambda>x. sqrt 2 * x) std')"
  from c1 obtain d1 q1 where d1: "binop (-) v1 m' = Inr d1" and q1: "binop (/) d1 den = Inr q1"
    and c1': "c1 = map_t (\<lambda>x. x * 0.5) (map_t (\<lambda>x. 1 + x) (map_t erf q1))"
    by (auto simp: cdf_expr_def bindE_def den_def split: sum.splits)
  define d2 where "d2 = tabulate (shape d1) (\<lambda>idx. bc_at v2 idx - bc_at m' idx)"
  define q2 where "q2 = tabulate (shape q1) (\<lambda>idx. bc_at d2 idx / bc_at den idx)"
  define c2 where "c2 = map_t (\<lambda>x. x * 0.5) (map_t (\<lambda>x. 1 + x) (map_t erf q2))"
  have bd: "broadcast_shapes (shape v1) (shape m') = Some (shape d1)"
    using d1 by (rule binop_elem)
  have bq: "broadcast_shapes (shape d1) (shape den) = Some (shape q1)"
    using q1 by (rule binop_elem)
  have d2: "binop (-) v2 m' = Inr d2"
    using bd sh by (simp add: binop_def d2_def)
  have q2: "binop (/) d2 den = Inr q2"
    using bq by (simp add: binop_def d2_def q2_def)
  have r2: "cdf_expr v2 m' std' = Inr c2"
    by (simp add: cdf_expr_def bindE_def d2 q2 den_def [symmetric] c2_def)
  have wfq: "wf_tensor q1" "wf_tensor q2"
    using binop_elem(2) [OF q1] by (simp_all add: q2_def)
  have wfden: "wf_tensor den" "shape den = shape std'"
    using wf by (simp_all add: den_def)
  have denpos: "\<forall>x \<in> set (data den). 0 < x"
  proof
    fix x assume "x \<in> set (data den)"
    then obtain y where "y \<in> set (data std')" "x = sqrt 2 * y + 1 / 100000"
      by (auto simp: den_def map_t_def)
    with pos show "0 < x" by (simp add: add_pos_pos)
  qed
  have "elem c1 idx \<le> elem c2 idx" if v: "valid_index (shape c1) idx" for idx
  proof -
    from v have vq: "valid_index (shape q1) idx" by (simp add: c1')
    from broadcast_valid [OF bq vq]
    have vd: "valid_index (shape d1) (bc_index (shape d1) idx)"
      and vden: "valid_index (shape den) (bc_index (shape den) idx)" .
    from broadcast_valid(1) [OF bd vd]
    have vv: "valid_index (shape v1) (bc_index (shape v1) (bc_index (shape d1) idx))" .
    have e1: "bc_at d1 idx = bc_at v1 (bc_index (shape d1) idx) - bc_at m' (bc_index (shape d1) idx)"
      using binop_elem(3) [OF d1 vd] by (simp add: bc_at_def)
    have e2: "bc_at d2 idx = bc_at v2 (bc_index (shape d1) idx) - bc_at m' (bc_index (shape d1) idx)"
      using vd by (simp add: bc_at_def d2_def elem_tabulate)
    have "bc_at v1 (bc_index (shape d1) idx) \<le> bc_at v2 (bc_index (shape d1) idx)"
      using le vv sh by (simp add: bc_at_def)
    with e1 e2 have dle: "bc_at d1 idx \<le> bc_at d2 idx" by simp
    have "bc_at den idx \<in> set (data den)"
      using elem_in_data [OF wfden(1) vden] by (simp add: bc_at_def)
    with denpos have dp: "0 < bc_at den idx" by blast
    have "elem q1 idx = bc_at d1 idx / bc_at den idx"
      using binop_elem(3) [OF q1 vq] .
    moreover have "elem q2 idx = bc_at d2 idx / bc_at den idx"
      using vq by (simp add: q2_def elem_tabulate)
    ultimately have "elem q1 idx \<le> elem q2 idx"
      using dle dp by (simp add: divide_right_mono)
    then have "erf (elem q1 idx) \<le> erf (elem q2 idx)" by (rule erf_mono)
    moreover have "elem c1 idx = (1 + erf (elem q1 idx)) * 0.5"
      using vq wfq by (simp add: c1' elem_map_t)
    moreover have "elem c2 idx = (1 + erf (elem q2 idx)) * 0.5"
      using vq wfq by (simp add: c2_def elem_map_t q2_def)
    ultimately show ?thesis by simp
  qed
  moreover have "shape c2 = shape c1" by (simp add: c1' c2_def q2_def)
  ultimately show ?thesis using r2 by blast
qed

text \<open>
  C8. For an object with mean and log variance set, and two values of one shape with
  \<open>v1 \<le> v2\<close> at every position: when \<open>cdf(v1)\<close> returns, \<open>cdf(v2)\<close> returns a tensor
  of the same shape, and \<open>cdf(v1) \<le> cdf(v2)\<close> at every position.
\<close>

theorem cdf_monotone:
  assumes par: "mean s = Some m" "log_var s = Some lv"
    and wf: "wf_tensor m" "wf_tensor lv" "wf_tensor v1" "wf_tensor v2"
    and sh: "shape v1 = shape v2"
    and le: "\<forall>idx. valid_index (shape v1) idx \<longrightarrow> elem v1 idx \<le> elem v2 idx"
    and c1: "cdf s v1 = Inr c1"
  shows "\<exists>c2. cdf s v2 = Inr c2 \<and> shape c2 = shape c1
              \<and> (\<forall>idx. valid_index (shape c1) idx \<longrightarrow> elem c1 idx \<le> elem c2 idx)"
proof -
  from c1 par obtain m' std' where rk: "\<not> rank v1 < 2"
    and e: "expand2 (int (shape v1 ! 1)) m (std_of lv) = Inr (m', std')"
    and x: "cdf_expr v1 m' std' = Inr c1"
    by (auto simp: cdf_def bindE_def split: if_splits sum.splits)
  have wfs: "wf_tensor (std_of lv)" using wf by (simp add: std_of_def)
  have pos0: "\<forall>x \<in> set (data (std_of lv)). 0 < x"
    by (auto simp: std_of_def map_t_def)
  from expand2_data [OF wf(1) wfs e] pos0
  have wf': "wf_tensor std'" and pos: "\<forall>x \<in> set (data std'). 0 < x"
    by auto
  from cdf_expr_mono [OF wf(3) wf(4) wf' sh pos le x]
  obtain c2 where "cdf_expr v2 m' std' = Inr c2" "shape c2 = shape c1"
    "\<forall>idx. valid_index (shape c1) idx \<longrightarrow> elem c1 idx \<le> elem c2 idx"
    by blast
  moreover from this(1) have "cdf s v2 = Inr c2"
    using rk e par sh by (simp add: cdf_def rank_def bindE_def)
  ultimately show ?thesis by blast
qed

theorem cdf_monotone_witness:
  "\<exists>c1 c2. cdf std_normal two_draws = Inr c1 \<and> cdf std_normal two_ones = Inr c2
      \<and> shape c2 = [1, 2, 1] \<and> shape c1 = [1, 2, 1] \<and> elem c1 [0, 0, 0] \<le> elem c2 [0, 0, 0]"
proof -
  have par: "mean std_normal = Some (t11 0)" "log_var std_normal = Some (t11 0)"
    by (simp_all add: std_normal_def init_normal_def)
  have wf: "wf_tensor (t11 0)" "wf_tensor two_draws" "wf_tensor two_ones"
    by (simp_all add: wf_tensor_def t11_def two_draws_def two_ones_def)
  have sh: "shape two_draws = shape two_ones"
    by (simp add: two_draws_def two_ones_def)
  have le: "\<forall>idx. valid_index (shape two_draws) idx \<longrightarrow> elem two_draws idx \<le> elem two_ones idx"
  proof (intro allI impI)
    fix idx assume "valid_index (shape two_draws) idx"
    then obtain j where "idx = [0, j, 0]" "j < 2"
      by (auto simp: two_draws_def valid_index_Cons)
    then show "elem two_draws idx \<le> elem two_ones idx"
      by (cases "j = 0") (auto simp: elem_def two_draws_def two_ones_def less_Suc_eq numeral_2_eq_2)
  qed
  obtain c1 where c1: "cdf std_normal two_draws = Inr c1" and s1: "shape c1 = [1, 2, 1]"
    by (simp add: cdf_def cdf_expr_def expand2_def std_of_def std_normal_def init_normal_def
        t11_def two_draws_def tensor_eval)
  from cdf_monotone [OF par wf(1) wf(1) wf(2) wf(3) sh le c1]
  obtain c2 where c2: "cdf std_normal two_ones = Inr c2" "shape c2 = shape c1"
    and el: "\<And>idx. valid_index (shape c1) idx \<Longrightarrow> elem c1 idx \<le> elem c2 idx"
    by blast
  have "valid_index (shape c1) [0, 0, 0]"
    by (simp add: s1 valid_index_def)
  from el [OF this] c1 c2 s1 show ?thesis by simp
qed

section \<open>Model.kl\_divergences\<close>

lemma kl_levels_length:
  "kl_levels n i levels = Inr kl \<Longrightarrow> length kl = length levels"
  by (induction levels arbitrary: i kl) (auto simp: bindE_def split: sum.splits)

text \<open>
  C2 asks for the sum over all feature dimensions at every rank. The inner loop takes
  its axes from \<open>range(2, rank)\<close> of the tensor before the loop, while every sum
  removes an axis: for a KL tensor of rank 4, \<open>[batch, sample, channels, height]\<close>,
  the second sum asks for axis 3 of a tensor of rank 3 and raises. (The loop of
  \<open>conditional_log_likelihoods\<close> sums the last axis until two are left.)
\<close>

theorem kl_divergences_rank4_raises:
  "kl_divergences conv_model True = Inl IndexError
   \<and> kl_divergences conv_model False = Inl IndexError"
  by (simp add: kl_divergences_def conv_model_def conv_level_def reduce_level_kl_def t1111_def
      tensor_eval)

section \<open>Summing trailing axes\<close>

lemma ravel_snoc:
  "valid_index sh idx \<Longrightarrow> ravel (sh @ [n]) (idx @ [k]) = ravel sh idx * n + k"
  by (induction sh arbitrary: idx) (auto simp: valid_index_Cons algebra_simps)

lemma sum_dim_last:
  assumes "shape t = sh @ [n]"
  shows "sum_dim (length sh) t
         = Inr \<lparr>shape = sh,
                data = map (\<lambda>p. \<Sum>k<n. data t ! (p * n + k)) [0..<prod_list sh]\<rparr>"
proof -
  have "map (\<lambda>j. \<Sum>k\<leftarrow>[0..<n]. elem t (take (length sh) (unravel sh j) @ [k]
                                       @ drop (length sh) (unravel sh j))) [0..<prod_list sh]
        = map (\<lambda>p. \<Sum>k<n. data t ! (p * n + k)) [0..<prod_list sh]"
  proof (rule map_cong [OF refl])
    fix p assume "p \<in> set [0..<prod_list sh]"
    then have p: "p < prod_list sh" by simp
    then have v: "valid_index sh (unravel sh p)" by (rule unravel_valid)
    then have l: "length (unravel sh p) = length sh" by (rule valid_index_length)
    have "elem t (unravel sh p @ [k]) = data t ! (p * n + k)" for k
      using ravel_snoc [OF v, of n k] ravel_unravel [OF p] by (simp add: elem_def assms)
    then show "(\<Sum>k\<leftarrow>[0..<n]. elem t (take (length sh) (unravel sh p) @ [k]
                                       @ drop (length sh) (unravel sh p)))
               = (\<Sum>k<n. data t ! (p * n + k))"
      using l by (simp add: interv_sum_list_conv_sum_set_nat atLeast0LessThan)
  qed
  then show ?thesis
    by (simp add: sum_dim_def rank_def assms tabulate_def)
qed



section \<open>Model.conditional\_log\_likelihoods\<close>

lemma mean_dim_samples:
  assumes "shape t = [b, s]" "0 < s"
  shows "mean_dim 1 t
         = Inr \<lparr>shape = [b], data = map (\<lambda>i. (\<Sum>j<s. data t ! (i * s + j)) / real s) [0..<b]\<rparr>"
  using sum_dim_last [of t "[b]" s] assms
  by (simp add: mean_dim_def rank_def bindE_def map_t_def)












section \<open>Vectors and scalars\<close>







lemma broadcast_vec_scalar [simp]:
  "broadcast_shapes [B] [] = Some [B]" "broadcast_shapes [] [B] = Some [B]"
  "broadcast_shapes [] [] = Some []"
  by (simp_all add: broadcast_shapes_def)

lemma shape_vec [simp]: "shape (vec B f) = [B]"
  by (simp add: vec_def)

lemma shape_scalar [simp]: "shape (scalar x) = []"
  by (simp add: scalar_def)












section \<open>Model.elbo\<close>












section \<open>In-place operations and the store\<close>

lemma unchanged_refl: "unchanged h h"
  by (simp add: unchanged_def)

lemma keepsI:
  assumes "\<And>h res h'. unchanged h0 h \<Longrightarrow> m h = (res, h') \<Longrightarrow>
             unchanged h0 h' \<and> (\<forall>x. res = Inr x \<longrightarrow> Q x)"
  shows "keeps h0 m Q"
  using assms unfolding keeps_def by blast

lemma keeps_weaken: "keeps h0 m Q \<Longrightarrow> (\<And>x. Q x \<Longrightarrow> R x) \<Longrightarrow> keeps h0 m R"
  unfolding keeps_def by blast

lemma keeps_bind:
  assumes "keeps h0 m Q" and "\<And>x. Q x \<Longrightarrow> keeps h0 (f x) R"
  shows "keeps h0 (bindH m f) R"
proof (rule keepsI)
  fix h res h'
  assume u: "unchanged h0 h" and b: "bindH m f h = (res, h')"
  obtain r1 h1 where m: "m h = (r1, h1)" by (cases "m h")
  from assms(1) u m have u1: "unchanged h0 h1" and q: "\<forall>x. r1 = Inr x \<longrightarrow> Q x"
    unfolding keeps_def by blast+
  show "unchanged h0 h' \<and> (\<forall>x. res = Inr x \<longrightarrow> R x)"
  proof (cases r1)
    case (Inl e)
    with b m u1 show ?thesis by (auto simp: bindH_def)
  next
    case (Inr x)
    with b m have "f x h1 = (res, h')" by (simp add: bindH_def)
    moreover from q Inr have "Q x" by simp
    ultimately show ?thesis using assms(2) u1 unfolding keeps_def by blast
  qed
qed

lemma keeps_return: "Q x \<Longrightarrow> keeps h0 (returnH x) Q"
  by (rule keepsI) (auto simp: returnH_def)

lemma keeps_raise: "keeps h0 (raiseH e) Q"
  by (rule keepsI) (auto simp: raiseH_def)

lemma keeps_lift: "keeps h0 (liftH x) (\<lambda>_. True)"
  by (rule keepsI) (auto simp: liftH_def)

lemma keeps_alloc: "keeps h0 (alloc t) (fresh h0)"
  by (rule keepsI) (auto simp: alloc_def unchanged_def fresh_def)

lemma keeps_overwrite: "fresh h0 r \<Longrightarrow> keeps h0 (overwrite r t) (fresh h0)"
  by (rule keepsI) (auto simp: overwrite_def unchanged_def fresh_def)

lemma keeps_reading:
  assumes "\<And>h. keeps h0 (g h) Q"
  shows "keeps h0 (\<lambda>h. g h h) Q"
  using assms unfolding keeps_def by blast

lemma keeps_h_map: "keeps h0 (h_map f r) (fresh h0)"
  unfolding h_map_def by (rule keeps_reading) (rule keeps_alloc)

lemma keeps_h_map_inplace: "fresh h0 r \<Longrightarrow> keeps h0 (h_map_inplace f r) (fresh h0)"
  unfolding h_map_inplace_def by (rule keeps_reading) (rule keeps_overwrite)

lemma keeps_h_binop: "keeps h0 (h_binop f a b) (fresh h0)"
  unfolding h_binop_def
  by (rule keeps_reading) (rule keeps_bind [OF keeps_lift keeps_alloc])

lemma keeps_h_binop_inplace: "fresh h0 a \<Longrightarrow> keeps h0 (h_binop_inplace f a b) (fresh h0)"
  unfolding h_binop_inplace_def
  by (rule keeps_reading) (rule keeps_bind [OF keeps_lift keeps_overwrite])

lemma keeps_h_unsqueeze: "keeps h0 (h_unsqueeze d r) (\<lambda>_. True)"
  unfolding h_unsqueeze_def
  by (rule keeps_reading) (rule keeps_bind [OF keeps_lift keeps_return], simp)

lemma keeps_h_repeat: "keeps h0 (h_repeat reps r) (fresh h0)"
  unfolding h_repeat_def
  by (rule keeps_reading) (rule keeps_bind [OF keeps_lift keeps_alloc])

lemma keeps_across_samples: "keeps h0 (across_samples_h n k r) (\<lambda>_. True)"
  unfolding across_samples_h_def
  by (rule keeps_bind [OF keeps_h_unsqueeze]) (rule keeps_weaken [OF keeps_h_repeat], simp)

lemma keeps_expand2: "keeps h0 (expand2_h n m x) (\<lambda>_. True)"
  unfolding expand2_h_def
  by (auto intro!: keeps_bind [OF keeps_across_samples] keeps_return)

lemma keeps_expand24: "keeps h0 (expand24_h n m x) (\<lambda>_. True)"
  unfolding expand24_h_def
  by (auto intro!: keeps_bind [OF keeps_across_samples] keeps_return)

lemma keeps_density_expr: "keeps h0 (density_expr_h v m' lv') (fresh h0)"
  unfolding density_expr_h_def
  by (intro keeps_bind [OF keeps_h_map] keeps_bind [OF keeps_h_binop]
      keeps_bind [OF keeps_h_map_inplace] keeps_bind [OF keeps_h_binop_inplace]
      keeps_h_map_inplace)

lemma keeps_log_density: "keeps h0 (log_density_h s v) (fresh h0)"
  unfolding log_density_h_def
  by (auto split: option.splits prod.splits
      intro!: keeps_raise keeps_bind [OF keeps_expand24] keeps_density_expr)

lemma keeps_std_of: "keeps h0 (std_of_h lv) (fresh h0)"
  unfolding std_of_h_def
  by (intro keeps_bind [OF keeps_h_map] keeps_h_map_inplace)

lemma keeps_cdf_expr: "keeps h0 (cdf_expr_h v m' std') (fresh h0)"
  unfolding cdf_expr_h_def
  by (intro keeps_bind [OF keeps_h_map] keeps_bind [OF keeps_h_binop] keeps_h_map_inplace)

lemma keeps_cdf: "keeps h0 (cdf_h s v) (fresh h0)"
  unfolding cdf_h_def
  by (auto split: option.splits prod.splits
      intro!: keeps_raise keeps_bind [OF keeps_std_of] keeps_bind [OF keeps_expand2]
        keeps_cdf_expr)

lemma keeps_unchanged: "keeps h m Q \<Longrightarrow> unchanged h (snd (m h))"
  unfolding keeps_def using unchanged_refl [of h] by (metis prod.collapse)

lemma unchanged_read: "unchanged h h' \<Longrightarrow> addr x < free h \<Longrightarrow> read h' x = read h x"
  by (simp add: unchanged_def read_def)

text \<open>
  C10. \<open>cdf(value)\<close> and \<open>log_prob(value)\<close> at a tensor overwrite only storage that
  they allocated themselves: every tensor that exists before the call (the mean, the
  log variance, the cached sample and the caller's value among them) holds the same
  numbers after it, whether the call returns or raises. Neither method assigns an
  attribute of the object.
\<close>

theorem cdf_and_log_prob_leave_tensors:
  assumes "addr x < free h"
  shows "read (snd (cdf_h s v h)) x = read h x
       \<and> read (snd (log_density_h s v h)) x = read h x"
  using assms keeps_unchanged [OF keeps_cdf, of h s v]
    keeps_unchanged [OF keeps_log_density, of h s v]
  by (simp add: unchanged_read)

text \<open>The operations on the store compute what the operations on values compute.\<close>

lemma read_tensor [simp]: "\<lparr>shape = shape t, data = data t\<rparr> = (t :: tensor)"
  by simp

lemma density_expr_h_refines:
  assumes "addr v < free h" "addr m' < free h" "addr lv' < free h"
  shows "case density_expr_h v m' lv' h of
           (Inl e, h') \<Rightarrow> density_expr (read h v) (read h m') (read h lv') = Inl e
         | (Inr r, h') \<Rightarrow> density_expr (read h v) (read h m') (read h lv') = Inr (read h' r)"
  using assms
  by (auto simp: density_expr_h_def density_expr_def bindH_def bindE_def h_map_def
      h_map_inplace_def h_binop_def h_binop_inplace_def alloc_def overwrite_def liftH_def
      read_def map_t_def split: sum.splits prod.splits)

lemma cdf_expr_h_refines:
  assumes "addr v < free h" "addr m' < free h" "addr std' < free h"
  shows "case cdf_expr_h v m' std' h of
           (Inl e, h') \<Rightarrow> cdf_expr (read h v) (read h m') (read h std') = Inl e
         | (Inr r, h') \<Rightarrow> cdf_expr (read h v) (read h m') (read h std') = Inr (read h' r)"
  using assms
  by (auto simp: cdf_expr_h_def cdf_expr_def bindH_def bindE_def h_map_def
      h_map_inplace_def h_binop_def h_binop_inplace_def alloc_def overwrite_def liftH_def
      read_def map_t_def split: sum.splits prod.splits)

lemma across_samples_h_refines:
  assumes "addr r < free h" and "across_samples_h n k r h = (res, h1)"
  shows "unchanged h h1 \<and>
         (case res of
            Inl e \<Rightarrow> across_samples n k (read h r) = Inl e
          | Inr r' \<Rightarrow> across_samples n k (read h r) = Inr (read h1 r') \<and> addr r' < free h1)"
  using assms
  by (auto simp: across_samples_h_def across_samples_def h_unsqueeze_def h_repeat_def
      bindH_def bindE_def liftH_def returnH_def alloc_def read_def unsqueeze_def unchanged_def
      split: sum.splits prod.splits if_splits)

lemma across_pair_h_refines:
  assumes "addr m < free h" "addr x < free h"
    and run: "bindH (across_samples_h n k m) (\<lambda>m'.
           bindH (across_samples_h n k x) (\<lambda>x'. returnH (m', x'))) h = (res, h1)"
  shows "unchanged h h1 \<and>
         (case res of
            Inl e \<Rightarrow> bindE (across_samples n k (read h m)) (\<lambda>m'.
                       bindE (across_samples n k (read h x)) (\<lambda>x'. Inr (m', x'))) = Inl e
          | Inr (m', x') \<Rightarrow> bindE (across_samples n k (read h m)) (\<lambda>m'.
                       bindE (across_samples n k (read h x)) (\<lambda>x'. Inr (m', x')))
                     = Inr (read h1 m', read h1 x')
              \<and> addr m' < free h1 \<and> addr x' < free h1)"
proof -
  obtain r1 g1 where a1: "across_samples_h n k m h = (r1, g1)"
    by (cases "across_samples_h n k m h")
  note s1 = across_samples_h_refines [OF assms(1) a1]
  show ?thesis
  proof (cases r1)
    case (Inl e)
    with run a1 s1 show ?thesis by (auto simp: bindH_def bindE_def)
  next
    case (Inr m')
    from s1 have u1: "unchanged h g1" by simp
    then have x1: "addr x < free g1" "read g1 x = read h x"
      using assms(2) by (auto simp: unchanged_def read_def)
    obtain r2 g2 where a2: "across_samples_h n k x g1 = (r2, g2)"
      by (cases "across_samples_h n k x g1")
    note s2 = across_samples_h_refines [OF x1(1) a2]
    from s2 have u2: "unchanged g1 g2" by simp
    from s1 Inr have m1: "addr m' < free g1" by simp
    then have m2: "read g2 m' = read g1 m'" "addr m' < free g2"
      using u2 by (auto simp: unchanged_def read_def)
    from u1 u2 have u: "unchanged h g2" by (auto simp: unchanged_def)
    show ?thesis
    proof (cases r2)
      case (Inl e)
      with run a1 a2 s1 s2 Inr x1 u show ?thesis
        by (auto simp: bindH_def bindE_def)
    next
      case r2: (Inr x')
      with run a1 a2 Inr have "res = Inr (m', x')" "h1 = g2"
        by (auto simp: bindH_def returnH_def)
      with s1 s2 Inr r2 x1 m2 u show ?thesis
        by (auto simp: bindE_def)
    qed
  qed
qed

lemma expand24_h_refines:
  assumes "addr m < free h" "addr x < free h" and "expand24_h n m x h = (res, h1)"
  shows "unchanged h h1 \<and>
         (case res of
            Inl e \<Rightarrow> expand24 n (read h m) (read h x) = Inl e
          | Inr (m', x') \<Rightarrow> expand24 n (read h m) (read h x) = Inr (read h1 m', read h1 x')
              \<and> addr m' < free h1 \<and> addr x' < free h1)"
proof -
  have rk: "rank (read h m) = length (view m)" by (simp add: rank_def read_def)
  show ?thesis
  proof (cases "length (view m) = 2")
    case True
    with assms(3) across_pair_h_refines [OF assms(1,2), of n 1 res h1] rk show ?thesis
      by (auto simp: expand24_h_def expand24_def split: sum.splits prod.splits)
  next
    case False
    show ?thesis
    proof (cases "length (view m) = 4")
      case True
      with assms(3) across_pair_h_refines [OF assms(1,2), of n 3 res h1] rk show ?thesis
        by (auto simp: expand24_h_def expand24_def split: sum.splits prod.splits)
    next
      case f4: False
      with False assms rk show ?thesis
        by (auto simp: expand24_h_def expand24_def returnH_def unchanged_def)
    qed
  qed
qed

lemma expand2_h_refines:
  assumes "addr m < free h" "addr x < free h" and "expand2_h n m x h = (res, h1)"
  shows "unchanged h h1 \<and>
         (case res of
            Inl e \<Rightarrow> expand2 n (read h m) (read h x) = Inl e
          | Inr (m', x') \<Rightarrow> expand2 n (read h m) (read h x) = Inr (read h1 m', read h1 x')
              \<and> addr m' < free h1 \<and> addr x' < free h1)"
proof -
  have rk: "rank (read h m) = length (view m)" by (simp add: rank_def read_def)
  show ?thesis
  proof (cases "length (view m) = 2")
    case True
    with assms(3) across_pair_h_refines [OF assms(1,2), of n 1 res h1] rk show ?thesis
      by (auto simp: expand2_h_def expand2_def split: sum.splits prod.splits)
  next
    case False
    with assms rk show ?thesis
      by (auto simp: expand2_h_def expand2_def returnH_def unchanged_def)
  qed
qed

lemma log_density_h_refines:
  assumes v: "addr v < free h"
    and m: "\<forall>m. mean_at s = Some m \<longrightarrow> addr m < free h"
    and lv: "\<forall>lv. log_var_at s = Some lv \<longrightarrow> addr lv < free h"
    and run: "log_density_h s v h = (res, h')"
  shows "case res of
           Inl e \<Rightarrow> log_density (normal_of h s mr lr) (read h v) = Inl e
         | Inr r \<Rightarrow> log_density (normal_of h s mr lr) (read h v) = Inr (read h' r)"
proof (cases "mean_at s")
  case None
  with run show ?thesis
    by (auto simp: log_density_h_def log_density_def normal_of_def raiseH_def
        split: option.splits)
next
  case (Some mref)
  note ms = Some
  show ?thesis
  proof (cases "log_var_at s")
    case None
    with run ms show ?thesis
      by (auto simp: log_density_h_def log_density_def normal_of_def raiseH_def)
  next
    case (Some lref)
    have rk: "rank (read h v) = length (view v)" "shape (read h v) = view v"
      by (simp_all add: rank_def read_def)
    show ?thesis
    proof (cases "length (view v) < 2")
      case True
      with run ms Some rk show ?thesis
        by (auto simp: log_density_h_def log_density_def normal_of_def raiseH_def)
    next
      case False
      obtain r1 h1 where e: "expand24_h (int (view v ! 1)) mref lref h = (r1, h1)"
        by (cases "expand24_h (int (view v ! 1)) mref lref h")
      from m lv ms Some have al: "addr mref < free h" "addr lref < free h" by simp_all
      note ex = expand24_h_refines [OF al e]
      have pure: "log_density (normal_of h s mr lr) (read h v)
                  = bindE (expand24 (int (view v ! 1)) (read h mref) (read h lref))
                      (\<lambda>(m', lv'). density_expr (read h v) m' lv')"
        using False ms Some rk by (simp add: log_density_def normal_of_def)
      show ?thesis
      proof (cases r1)
        case (Inl err)
        with run e ms Some False have "res = Inl err"
          by (simp add: log_density_h_def bindH_def)
        with ex Inl pure show ?thesis by (simp add: bindE_def)
      next
        case (Inr p)
        obtain m' lv' where p: "p = (m', lv')" by (cases p)
        from ex Inr p have u: "unchanged h h1"
          and pe: "expand24 (int (view v ! 1)) (read h mref) (read h lref)
                   = Inr (read h1 m', read h1 lv')"
          and al1: "addr m' < free h1" "addr lv' < free h1"
          by simp_all
        from u v have v1: "addr v < free h1" "read h1 v = read h v"
          by (auto simp: unchanged_def read_def)
        from run e ms Some False Inr p
        have d: "density_expr_h v m' lv' h1 = (res, h')"
          by (simp add: log_density_h_def bindH_def)
        from density_expr_h_refines [OF v1(1) al1] d pure pe v1(2)
        show ?thesis by (auto simp: bindE_def split: sum.splits)
      qed
    qed
  qed
qed

lemma std_of_h_refines:
  assumes "addr lv < free h"
  shows "\<exists>std h1. std_of_h lv h = (Inr std, h1) \<and> unchanged h h1 \<and> addr std < free h1
           \<and> read h1 std = std_of (read h lv)"
  using assms
  by (auto simp: std_of_h_def std_of_def bindH_def h_map_def h_map_inplace_def alloc_def
      overwrite_def read_def map_t_def unchanged_def)

lemma cdf_h_refines:
  assumes v: "addr v < free h"
    and m: "\<forall>m. mean_at s = Some m \<longrightarrow> addr m < free h"
    and lv: "\<forall>lv. log_var_at s = Some lv \<longrightarrow> addr lv < free h"
    and run: "cdf_h s v h = (res, h')"
  shows "case res of
           Inl e \<Rightarrow> cdf (normal_of h s mr lr) (read h v) = Inl e
         | Inr r \<Rightarrow> cdf (normal_of h s mr lr) (read h v) = Inr (read h' r)"
proof -
  have rk: "rank (read h v) = length (view v)" "shape (read h v) = view v"
    by (simp_all add: rank_def read_def)
  show ?thesis
  proof (cases "length (view v) < 2")
    case True
    with run rk show ?thesis by (auto simp: cdf_h_def cdf_def raiseH_def)
  next
    case False
    note long = False
    show ?thesis
    proof (cases "log_var_at s")
      case None
      with run long rk show ?thesis
        by (auto simp: cdf_h_def cdf_def normal_of_def raiseH_def)
    next
      case (Some lref)
      with lv have "addr lref < free h" by simp
      from std_of_h_refines [OF this]
      obtain std h1 where st: "std_of_h lref h = (Inr std, h1)" and u1: "unchanged h h1"
        and as: "addr std < free h1" and rs: "read h1 std = std_of (read h lref)"
        by blast
      show ?thesis
      proof (cases "mean_at s")
        case None
        with run long rk Some st show ?thesis
          by (auto simp: cdf_h_def cdf_def normal_of_def raiseH_def bindH_def)
      next
        case ms: (Some mref)
        with m u1 have am: "addr mref < free h1" "read h1 mref = read h mref"
          by (auto simp: unchanged_def read_def)
        from v u1 have v1: "addr v < free h1" "read h1 v = read h v"
          by (auto simp: unchanged_def read_def)
        obtain r2 h2 where e: "expand2_h (int (view v ! 1)) mref std h1 = (r2, h2)"
          by (cases "expand2_h (int (view v ! 1)) mref std h1")
        note ex = expand2_h_refines [OF am(1) as e]
        have pure: "cdf (normal_of h s mr lr) (read h v)
                    = bindE (expand2 (int (view v ! 1)) (read h1 mref) (read h1 std))
                        (\<lambda>(m', std'). cdf_expr (read h v) m' std')"
          using long ms Some rk am(2) rs by (simp add: cdf_def normal_of_def)
        show ?thesis
        proof (cases r2)
          case (Inl err)
          with run e ms Some long st have "res = Inl err"
            by (simp add: cdf_h_def bindH_def)
          with ex Inl pure show ?thesis by (simp add: bindE_def)
        next
          case (Inr p)
          obtain m' std' where p: "p = (m', std')" by (cases p)
          from ex Inr p have u2: "unchanged h1 h2"
            and pe: "expand2 (int (view v ! 1)) (read h1 mref) (read h1 std)
                     = Inr (read h2 m', read h2 std')"
            and al: "addr m' < free h2" "addr std' < free h2"
            by simp_all
          from u2 v1 have v2: "addr v < free h2" "read h2 v = read h v"
            by (auto simp: unchanged_def read_def)
          from run e ms Some long st Inr p
          have d: "cdf_expr_h v m' std' h2 = (res, h')"
            by (simp add: cdf_h_def bindH_def)
          from cdf_expr_h_refines [OF v2(1) al] d pure pe v2(2)
          show ?thesis by (auto simp: bindE_def split: sum.splits)
        qed
      qed
    qed
  qed
qed

theorem cdf_and_log_prob_leave_tensors_witness:
  "addr ex_value < free ex_heap
   \<and> read (snd (cdf_h ex_refs ex_value ex_heap)) ex_value = two_draws
   \<and> read (snd (log_density_h ex_refs ex_value ex_heap)) ex_value = two_draws
   \<and> read ex_heap ex_value = two_draws"
proof -
  have a: "addr ex_value < free ex_heap"
    by (simp add: ex_value_def ex_heap_def)
  have r: "read ex_heap ex_value = two_draws"
    by (simp add: read_def ex_value_def ex_heap_def two_draws_def)
  from cdf_and_log_prob_leave_tensors [OF a, of ex_refs ex_value] a r
  show ?thesis by simp
qed

text \<open>On the example store both calls return a tensor.\<close>

lemma example_store_is_std_normal:
  "normal_of ex_heap ex_refs (zeros [1]) (zeros [1]) = std_normal"
  "read ex_heap ex_value = two_draws"
  by (simp_all add: normal_of_def ex_heap_def ex_refs_def ex_value_def std_normal_def
      init_normal_def read_def t11_def two_draws_def)

lemma example_calls_return:
  "\<exists>r. fst (log_density_h ex_refs ex_value ex_heap) = Inr r"
  "\<exists>r. fst (cdf_h ex_refs ex_value ex_heap) = Inr r"
proof -
  have al: "addr ex_value < free ex_heap"
    "\<forall>m. mean_at ex_refs = Some m \<longrightarrow> addr m < free ex_heap"
    "\<forall>lv. log_var_at ex_refs = Some lv \<longrightarrow> addr lv < free ex_heap"
    by (simp_all add: ex_value_def ex_heap_def ex_refs_def)
  obtain lp where lp: "log_density std_normal two_draws = Inr lp"
    by (simp add: log_density_def density_expr_def expand24_def std_normal_def init_normal_def
        t11_def two_draws_def tensor_eval)
  obtain c where c: "cdf std_normal two_draws = Inr c"
    by (simp add: cdf_def cdf_expr_def expand2_def std_of_def std_normal_def init_normal_def
        t11_def two_draws_def tensor_eval)
  from log_density_h_refines [OF al surjective_pairing, of "zeros [1]" "zeros [1]"] lp
    example_store_is_std_normal
  show "\<exists>r. fst (log_density_h ex_refs ex_value ex_heap) = Inr r"
    by (cases "fst (log_density_h ex_refs ex_value ex_heap)")
      simp_all
  from cdf_h_refines [OF al surjective_pairing, of "zeros [1]" "zeros [1]"] c
    example_store_is_std_normal
  show "\<exists>r. fst (cdf_h ex_refs ex_value ex_heap) = Inr r"
    by (cases "fst (cdf_h ex_refs ex_value ex_heap)")
      simp_all
qed

section \<open>Model.kl\_divergences on tensors of rank 2 and 3\<close>

text \<open>
  The parts of C2 that hold. The levels are asked from bottom to top, the analytic KL
  exactly at the last one, and every level contributes one reduced tensor; a KL tensor
  of rank 2 or 3 is summed over its feature axis and averaged over the samples.
\<close>

lemma kl_levels_nth:
  "kl_levels n i0 levels = Inr kl \<Longrightarrow> j < length levels \<Longrightarrow>
   \<exists>t. kl_divergence (levels ! j) (i0 + j = n - 1) = Inr t \<and> reduce_level_kl t = Inr (kl ! j)"
proof (induction levels arbitrary: i0 kl j)
  case Nil
  then show ?case by simp
next
  case (Cons l levels)
  from Cons.prems(1) obtain t r rest where t: "kl_divergence l (i0 = n - 1) = Inr t"
    and r: "reduce_level_kl t = Inr r"
    and rest: "kl_levels n (Suc i0) levels = Inr rest" and kl: "kl = r # rest"
    by (auto simp: bindE_def split: sum.splits)
  show ?case
  proof (cases j)
    case 0
    with t r kl show ?thesis by simp
  next
    case (Suc j')
    with Cons.prems(2) have "j' < length levels" by simp
    from Cons.IH [OF rest this] Suc kl show ?thesis by simp
  qed
qed

lemma kl_divergences_levels:
  assumes "kl_divergences M False = Inr kl"
  shows "length kl = length (latent_levels M)"
    and "j < length (latent_levels M) \<Longrightarrow>
         \<exists>t. kl_divergence (latent_levels M ! j) (j = length (latent_levels M) - 1) = Inr t
            \<and> reduce_level_kl t = Inr (kl ! j)"
  using assms kl_levels_length [of "length (latent_levels M)" 0 "latent_levels M" kl]
    kl_levels_nth [of "length (latent_levels M)" 0 "latent_levels M" kl j]
  by (auto simp: kl_divergences_def bindE_def split: sum.splits)

lemma reduce_level_kl_rank2:
  assumes "shape t = [b, s]" "0 < s"
  shows "reduce_level_kl t = Inr \<lparr>shape = [b], data = map (batch_log_likelihood t) [0..<b]\<rparr>"
  using assms mean_dim_samples [OF assms]
  by (simp add: reduce_level_kl_def rank_def bindE_def batch_log_likelihood_def lessThan_Suc)

lemma reduce_level_kl_rank3:
  assumes "shape t = [b, s, k]" "0 < s"
  shows "reduce_level_kl t = Inr \<lparr>shape = [b], data = map (batch_log_likelihood t) [0..<b]\<rparr>"
proof -
  define t' where "t' = \<lparr>shape = [b, s], data = map (\<lambda>p. \<Sum>l<k. data t ! (p * k + l)) [0..<b * s]\<rparr>"
  have "sum_dim 2 t = Inr t'"
    using sum_dim_last [of t "[b, s]" k] assms(1) by (simp add: t'_def numeral_2_eq_2)
  moreover have "[2..<rank t] = [2]"
    using assms(1) by (simp add: rank_def upt_conv_Cons)
  ultimately have 1: "sum_dims [2..<rank t] t = Inr t'"
    by (simp add: bindE_def)
  have 2: "mean_dim 1 t'
           = Inr \<lparr>shape = [b], data = map (\<lambda>i. (\<Sum>j<s. data t' ! (i * s + j)) / real s) [0..<b]\<rparr>"
    using mean_dim_samples [of t' b s] assms(2) by (simp add: t'_def)
  have "map (\<lambda>i. (\<Sum>j<s. data t' ! (i * s + j)) / real s) [0..<b]
        = map (batch_log_likelihood t) [0..<b]"
  proof (rule map_cong [OF refl])
    fix i assume "i \<in> set [0..<b]"
    then have i: "i < b" by simp
    have "data t' ! (i * s + j) = (\<Sum>l<k. data t ! ((i * s + j) * k + l))" if "j < s" for j
    proof -
      have "i * s + j < Suc i * s" using that by simp
      also have "\<dots> \<le> b * s" using i by (intro mult_le_mono1) simp
      finally show ?thesis by (simp add: t'_def)
    qed
    then have "(\<Sum>j<s. data t' ! (i * s + j)) = (\<Sum>j<s. \<Sum>l<k. data t ! ((i * s + j) * k + l))"
      by (intro sum.cong) simp_all
    then show "(\<Sum>j<s. data t' ! (i * s + j)) / real s = batch_log_likelihood t i"
      by (simp add: batch_log_likelihood_def assms(1) Let_def)
  qed
  with 1 2 show ?thesis
    by (simp add: reduce_level_kl_def bindE_def)
qed

end
